theory Spec2Isabelle
  imports Complex_Main "HOL-Library.AList" "HOL-Library.Word"
begin

unbundle bit_operations_syntax

section \<open>Outbound transport (BackendConnection)\<close>

text \<open>
  The class \<^verbatim>\<open>BackendConnection\<close> keeps five mutable fields and talks to two
  runtime services: WebSocket objects and timeouts.  Its callbacks close over
  \<^verbatim>\<open>this\<close>, not over the socket they were attached to, so the handlers of every
  socket ever created act on the same fields.  The record below holds the fields of the
  class (first block) and the runtime objects the class has created (second block):
  every socket by index with its ready state, the frames handed to \<^verbatim>\<open>ws.send\<close>,
  the calls of \<^verbatim>\<open>ws.close\<close> with their code, the pending timeouts with their
  delay, the number of timeouts set so far (the next timer id), and whether the
  constructor \<^verbatim>\<open>new WebSocket\<close> accepts the configured URL.  A frame on the wire is
  the registration message or a queued text; an inbound frame is the acknowledgement of
  the registration, a backend error notice, or anything else (unknown type or text that
  \<^verbatim>\<open>JSON.parse\<close> rejects, which the handler catches).
\<close>

datatype readyState = CONNECTING | OPEN | CLOSING | CLOSED

datatype outbound = Register | Text string

datatype inbound = Registered | BackendError | Unrecognised

record transport =
  ws :: "nat option"
  authenticated :: bool
  reconnectAttempts :: nat
  messageQueue :: "string list"
  reconnectTimer :: "nat option"
  sockets :: "readyState list"
  wire :: "(nat \<times> outbound) list"
  closes :: "(nat \<times> nat) list"
  timers :: "(nat \<times> nat) list"
  timerCount :: nat
  urlAccepted :: bool

definition maxReconnectAttempts :: nat where
  "maxReconnectAttempts = 10"

text \<open>The field initialisers of the class, before any socket or timer exists.\<close>

definition new_BackendConnection :: "bool \<Rightarrow> transport" where
  "new_BackendConnection url_ok =
     \<lparr>ws = None, authenticated = False, reconnectAttempts = 0, messageQueue = [],
      reconnectTimer = None, sockets = [], wire = [], closes = [], timers = [],
      timerCount = 0, urlAccepted = url_ok\<rparr>"

definition sock_state :: "transport \<Rightarrow> nat \<Rightarrow> readyState option" where
  "sock_state s k = (if k < length (sockets s) then Some (sockets s ! k) else None)"

text \<open>\<^verbatim>\<open>this.ws?.readyState === WebSocket.OPEN\<close>\<close>

definition ws_open :: "transport \<Rightarrow> bool" where
  "ws_open s = (case ws s of None \<Rightarrow> False | Some k \<Rightarrow> sock_state s k = Some OPEN)"

text \<open>
  \<^verbatim>\<open>this.ws?.send(frame)\<close>: an open socket takes the frame; a closing or closed one
  discards it; a connecting one throws \<^verbatim>\<open>InvalidStateError\<close>.  The only call that can
  reach a connecting socket is the last statement of the \<^verbatim>\<open>onopen\<close> handler, where the
  exception ends the handler with the fields as they are, so all three cases leave the
  state unchanged.
\<close>

definition ws_send :: "outbound \<Rightarrow> transport \<Rightarrow> transport" where
  "ws_send fr s =
     (case ws s of
        None \<Rightarrow> s
      | Some k \<Rightarrow> if sock_state s k = Some OPEN then s\<lparr>wire := wire s @ [(k, fr)]\<rparr> else s)"

text \<open>\<^verbatim>\<open>socket.close(code, reason)\<close>: starts the closing handshake unless already closing or closed.\<close>

definition ws_close :: "nat \<Rightarrow> nat \<Rightarrow> transport \<Rightarrow> transport" where
  "ws_close k code s =
     (let s' = s\<lparr>closes := closes s @ [(k, code)]\<rparr> in
      if sock_state s k = Some CONNECTING \<or> sock_state s k = Some OPEN
      then s'\<lparr>sockets := (sockets s)[k := CLOSING]\<rparr> else s')"

definition clearTimeout :: "nat \<Rightarrow> transport \<Rightarrow> transport" where
  "clearTimeout t s = s\<lparr>timers := filter (\<lambda>p. fst p \<noteq> t) (timers s)\<rparr>"

definition scheduleReconnect :: "transport \<Rightarrow> transport" where
  "scheduleReconnect s =
     (if reconnectAttempts s \<ge> maxReconnectAttempts then s
      else
        let delay = min (1000 * 2 ^ reconnectAttempts s) 30000;
            t = timerCount s
        in s\<lparr>reconnectAttempts := reconnectAttempts s + 1,
             reconnectTimer := Some t,
             timers := timers s @ [(t, delay)],
             timerCount := t + 1\<rparr>)"

text \<open>
  \<^verbatim>\<open>connect()\<close>.  When the constructor \<^verbatim>\<open>new WebSocket(url)\<close> throws, the assignment to
  \<^verbatim>\<open>this.ws\<close> does not happen and the \<^verbatim>\<open>catch\<close> block schedules a reconnect.
\<close>

definition connect :: "transport \<Rightarrow> transport" where
  "connect s =
     (if ws_open s then s
      else if urlAccepted s
        then s\<lparr>ws := Some (length (sockets s)), sockets := sockets s @ [CONNECTING]\<rparr>
        else scheduleReconnect s)"

definition disconnect :: "transport \<Rightarrow> transport" where
  "disconnect s =
     (let s1 = (case reconnectTimer s of
                  None \<Rightarrow> s
                | Some t \<Rightarrow> (clearTimeout t s)\<lparr>reconnectTimer := None\<rparr>);
          s2 = (case ws s1 of
                  None \<Rightarrow> s1
                | Some k \<Rightarrow> (ws_close k 1000 s1)\<lparr>ws := None\<rparr>)
      in s2\<lparr>authenticated := False\<rparr>)"

definition send :: "string \<Rightarrow> transport \<Rightarrow> transport" where
  "send message s =
     (if ws_open s \<and> authenticated s then ws_send (Text message) s
      else if length (messageQueue s) < 1000
        then s\<lparr>messageQueue := messageQueue s @ [message]\<rparr>
        else s)"

text \<open>
  \<^verbatim>\<open>flushQueue()\<close>: the \<^verbatim>\<open>while\<close> loop, one iteration per call.  \<^verbatim>\<open>shift()\<close> removes the
  head; \<^verbatim>\<open>if (message)\<close> skips the empty string.
\<close>

function flushQueue :: "transport \<Rightarrow> transport" where
  "flushQueue s =
     (case messageQueue s of
        [] \<Rightarrow> s
      | message # rest \<Rightarrow>
          if ws_open s
          then flushQueue (let s' = s\<lparr>messageQueue := rest\<rparr>
                           in if message \<noteq> [] then ws_send (Text message) s' else s')
          else s)"
  by pat_completeness auto

termination flushQueue
  by (relation "measure (\<lambda>s. length (messageQueue s))")
     (auto simp: ws_send_def Let_def split: option.splits)

declare flushQueue.simps [simp del]

definition authenticate :: "transport \<Rightarrow> transport" where
  "authenticate s = ws_send Register s"

definition handleMessage :: "inbound \<Rightarrow> transport \<Rightarrow> transport" where
  "handleMessage m s =
     (case m of
        Registered \<Rightarrow> flushQueue (s\<lparr>authenticated := True\<rparr>)
      | BackendError \<Rightarrow> s
      | Unrecognised \<Rightarrow> s)"

definition onopen :: "transport \<Rightarrow> transport" where
  "onopen s = authenticate (s\<lparr>reconnectAttempts := 0\<rparr>)"

definition onclose :: "transport \<Rightarrow> transport" where
  "onclose s = scheduleReconnect (s\<lparr>authenticated := False\<rparr>)"

text \<open>
  The event loop.  An API call, or a completion the runtime delivers: a connecting socket
  opens, an open socket receives a frame, a socket that is not yet closed closes, a
  pending timeout fires.  The runtime runs the handler the class attached; an event the
  runtime cannot deliver in the current state changes nothing.
\<close>

datatype event =
    CallConnect
  | CallDisconnect
  | CallSend string
  | SocketOpen nat
  | SocketMessage nat inbound
  | SocketError nat
  | SocketClose nat
  | TimerFire nat

definition step :: "event \<Rightarrow> transport \<Rightarrow> transport" where
  "step e s =
     (case e of
        CallConnect \<Rightarrow> connect s
      | CallDisconnect \<Rightarrow> disconnect s
      | CallSend m \<Rightarrow> send m s
      | SocketOpen k \<Rightarrow>
          if sock_state s k = Some CONNECTING
          then onopen (s\<lparr>sockets := (sockets s)[k := OPEN]\<rparr>) else s
      | SocketMessage k m \<Rightarrow>
          if sock_state s k = Some OPEN then handleMessage m s else s
      | SocketError k \<Rightarrow> s
      | SocketClose k \<Rightarrow>
          if sock_state s k \<noteq> None \<and> sock_state s k \<noteq> Some CLOSED
          then onclose (s\<lparr>sockets := (sockets s)[k := CLOSED]\<rparr>) else s
      | TimerFire t \<Rightarrow>
          if t \<in> fst ` set (timers s) then connect (clearTimeout t s) else s)"

definition run :: "event list \<Rightarrow> transport \<Rightarrow> transport" where
  "run es s = fold step es s"

section \<open>Runtime values and configuration\<close>

text \<open>
  Strings are \<^typ>\<open>string\<close>; one character stands for one code unit of the source's
  strings, so \<^const>\<open>length\<close> is \<^verbatim>\<open>.length\<close>.

  A runtime value is a primitive or a reference into a heap of objects, so that an
  object can refer to itself.  A number is kept as the text \<^verbatim>\<open>String(value)\<close> gives
  for it, which is all the serializer reads of it; a function as its \<^verbatim>\<open>name\<close>; a
  symbol as its description.  A heap object is an array (dense), one of the built-ins
  the serializer recognises with the data it reads of them, or any other object, given
  by \<^verbatim>\<open>constructor?.name\<close>, by the one-line preview \<^verbatim>\<open>Deno.inspect\<close> prints for
  it, and by its own enumerable properties in \<^verbatim>\<open>Object.keys\<close> order.  A
  \<^verbatim>\<open>Date\<close> carries the result of \<^verbatim>\<open>toISOString()\<close>, which is absent for an invalid
  date: there the call throws \<^verbatim>\<open>RangeError\<close>.  Reading a property either yields a
  value or runs a getter that throws.  A call that finds the call stack of the runtime
  exhausted throws \<^verbatim>\<open>RangeError: Maximum call stack size exceeded\<close>, the error
  \<open>StackOverflow\<close> below.
\<close>

type_synonym addr = nat

datatype jsval =
    JNull | JUndefined | JBoolean bool | JNumber string | JBigInt int
  | JString string | JFunction string | JSymbol string | JObject addr

datatype jsprop = Data jsval | Throws

datatype jsobj =
    Arr "jsval list"
  | DateObj "string option"
  | ErrorObj string string
  | MapObj nat
  | SetObj nat
  | URLObj string
  | Plain "string option" string "(string \<times> jsprop) list"

type_synonym heap = "addr \<Rightarrow> jsobj"

datatype js_error = RangeError | GetterError | StackOverflow

text \<open>The interface \<^verbatim>\<open>CapturedVariable\<close>; an optional field is an \<^typ>\<open>'a option\<close>.\<close>

datatype CapturedVariable = CapturedVariable
  (cv_name: string) (cv_type: string) (cv_value: string) (isNull: bool) (isTruncated: bool)
  (children: "(string \<times> CapturedVariable) list option")
  (arrayElements: "CapturedVariable list option")
  (arrayLength: "nat option")

text \<open>
  \<^verbatim>\<open>AgentConfig\<close>: the fields the capture pipeline reads.  The three limits are
  numbers the constructor takes from the options or from \<^verbatim>\<open>parseInt\<close> of an
  environment variable without any range check, so they are integers of either sign.
\<close>

record User =
  user_id :: "string option"
  email :: "string option"
  username :: "string option"

datatype ctxval = Val jsval | UserObj User

record AgentConfig =
  samplingRate :: rat
  maxCaptureDepth :: int
  maxStringLength :: int
  maxCollectionSize :: int
  customContext :: "(string \<times> ctxval) list"
  user :: User

text \<open>The defaults of the constructor: rate \<^verbatim>\<open>1.0\<close>, depth 10, strings 1000, collections 100.\<close>

definition default_config :: AgentConfig where
  "default_config =
     \<lparr>samplingRate = 1, maxCaptureDepth = 10, maxStringLength = 1000, maxCollectionSize = 100,
      customContext = [], user = \<lparr>user_id = None, email = None, username = None\<rparr>\<rparr>"

text \<open>
  \<^verbatim>\<open>xs.slice(0, end)\<close> on strings and arrays: a negative \<^verbatim>\<open>end\<close> counts from the
  end of the sequence.
\<close>

definition slice0 :: "'a list \<Rightarrow> int \<Rightarrow> 'a list" where
  "slice0 xs e =
     (let n = int (length xs);
          k = (if e < 0 then max (n + e) 0 else min e n)
      in take (nat k) xs)"

text \<open>Decimal text of a length or an index, as a template literal prints it.\<close>

definition digit_char :: "nat \<Rightarrow> char" where
  "digit_char d = char_of (48 + d)"

fun show_nat :: "nat \<Rightarrow> string" where
  "show_nat n = (if n < 10 then [digit_char n] else show_nat (n div 10) @ [digit_char (n mod 10)])"

declare show_nat.simps [simp del]

definition show_int :: "int \<Rightarrow> string" where
  "show_int i = (if i < 0 then CHR ''-'' # show_nat (nat (- i)) else show_nat (nat i))"

section \<open>Value serializer (ExceptionHandler.captureValue)\<close>

text \<open>
  A callback that throws ends \<^verbatim>\<open>Array.prototype.map\<close> or a \<^verbatim>\<open>for\<close> loop at the
  first exception: the results of the iterations are collected up to the first error.
\<close>

fun sequence_sum :: "('e + 'a) list \<Rightarrow> 'e + 'a list" where
  "sequence_sum [] = Inr []"
| "sequence_sum (x # xs) =
     (case x of
        Inl e \<Rightarrow> Inl e
      | Inr y \<Rightarrow> (case sequence_sum xs of Inl e \<Rightarrow> Inl e | Inr ys \<Rightarrow> Inr (y # ys)))"

text \<open>
  \<^verbatim>\<open>result[key] = value\<close> for each pair in turn, starting from the empty object: an
  existing key keeps its place and takes the new value, a new key goes to the end
  (the runtime lists keys that are array indices first; the order is not used below).
\<close>

definition assign_all :: "(string \<times> 'a) list \<Rightarrow> (string \<times> 'a) list" where
  "assign_all kvs = fold (\<lambda>(k, c) acc. AList.update k c acc) kvs []"

fun getType :: "heap \<Rightarrow> jsval \<Rightarrow> string" where
  "getType h JNull = ''null''"
| "getType h JUndefined = ''undefined''"
| "getType h (JObject a) = (case h a of Arr xs \<Rightarrow> ''array'' | _ \<Rightarrow> ''object'')"
| "getType h (JBoolean b) = ''boolean''"
| "getType h (JNumber t) = ''number''"
| "getType h (JBigInt i) = ''bigint''"
| "getType h (JString s) = ''string''"
| "getType h (JFunction f) = ''function''"
| "getType h (JSymbol d) = ''symbol''"

text \<open>
  \<^verbatim>\<open>captureValue(name, value, depth)\<close>.  The result is \<^term>\<open>Inl e\<close> when the call
  throws \<^term>\<open>e\<close>.  The recursion is on \<^verbatim>\<open>depth\<close>, which only grows and is
  compared with \<^verbatim>\<open>maxCaptureDepth\<close> before every recursive call.  Every level of
  the recursion is a nested call of the runtime, and nothing in the source catches an
  exception: \<open>stack\<close> is the number of further nested levels the call stack of the
  runtime holds below the current call (a quantity of the runtime, not of the
  configuration), and a recursive call attempted with none left throws.  The argument
  \<^verbatim>\<open>value[key]\<close> is read before the call is made.
\<close>

function captureValue ::
  "AgentConfig \<Rightarrow> heap \<Rightarrow> nat \<Rightarrow> string \<Rightarrow> jsval \<Rightarrow> int \<Rightarrow>
     js_error + CapturedVariable" where
  "captureValue cfg h stack name v depth =
     (case v of
        JNull \<Rightarrow> Inr (CapturedVariable name (getType h v) ''null'' True False None None None)
      | JUndefined \<Rightarrow>
          Inr (CapturedVariable name ''undefined'' ''undefined'' False False None None None)
      | JBoolean b \<Rightarrow>
          Inr (CapturedVariable name (getType h v) (if b then ''true'' else ''false'')
                 False False None None None)
      | JNumber txt \<Rightarrow> Inr (CapturedVariable name (getType h v) txt False False None None None)
      | JBigInt i \<Rightarrow>
          Inr (CapturedVariable name (getType h v) (show_int i) False False None None None)
      | JString s \<Rightarrow>
          if int (length s) > maxStringLength cfg
          then Inr (CapturedVariable name (getType h v) (slice0 s (maxStringLength cfg))
                      False True None None None)
          else Inr (CapturedVariable name (getType h v) s False False None None None)
      | JFunction f \<Rightarrow>
          Inr (CapturedVariable name ''function''
                 (''[Function: '' @ (if f = [] then ''anonymous'' else f) @ '']'')
                 False False None None None)
      | JSymbol d \<Rightarrow>
          Inr (CapturedVariable name (getType h v) (''Symbol('' @ d @ '')'')
                 False False None None None)
      | JObject a \<Rightarrow>
          (case h a of
             Arr xs \<Rightarrow>
               if depth < maxCaptureDepth cfg \<and> int (length xs) \<le> maxCollectionSize cfg
               then
                 (case sequence_sum
                         (map (\<lambda>(i, item).
                                 if stack = 0 then Inl StackOverflow
                                 else captureValue cfg h (stack - 1)
                                        (''['' @ show_nat i @ '']'') item (depth + 1))
                              (enumerate 0 (slice0 xs (maxCollectionSize cfg)))) of
                    Inl e \<Rightarrow> Inl e
                  | Inr elems \<Rightarrow>
                      Inr (CapturedVariable name ''array''
                             (''Array('' @ show_nat (length xs) @ '')'')
                             False False None (Some elems) (Some (length xs))))
               else Inr (CapturedVariable name ''array''
                           (''Array('' @ show_nat (length xs) @ '')'')
                           False False None None (Some (length xs)))
           | DateObj rendered \<Rightarrow>
               (case rendered of
                  None \<Rightarrow> Inl RangeError
                | Some t \<Rightarrow> Inr (CapturedVariable name ''Date'' t False False None None None))
           | ErrorObj ename msg \<Rightarrow>
               Inr (CapturedVariable name (if ename = [] then ''Error'' else ename) msg
                      False False None None None)
           | MapObj n \<Rightarrow>
               Inr (CapturedVariable name ''Map'' (''Map('' @ show_nat n @ '')'')
                      False False None None None)
           | SetObj n \<Rightarrow>
               Inr (CapturedVariable name ''Set'' (''Set('' @ show_nat n @ '')'')
                      False False None None None)
           | URLObj href \<Rightarrow>
               Inr (CapturedVariable name ''URL'' href False False None None None)
           | Plain ctor preview props \<Rightarrow>
               (let ty = (case ctor of
                            None \<Rightarrow> ''Object''
                          | Some c \<Rightarrow> if c = [] then ''Object'' else c)
                in if depth < maxCaptureDepth cfg
                   then
                     (case sequence_sum
                             (map (\<lambda>key.
                                     case map_of props key of
                                       None \<Rightarrow>
                                         if stack = 0 then Inl StackOverflow
                                         else map_sum id (Pair key)
                                                (captureValue cfg h (stack - 1) key JUndefined
                                                   (depth + 1))
                                     | Some Throws \<Rightarrow> Inl GetterError
                                     | Some (Data x) \<Rightarrow>
                                         if stack = 0 then Inl StackOverflow
                                         else map_sum id (Pair key)
                                                (captureValue cfg h (stack - 1) key x
                                                   (depth + 1)))
                                  (slice0 (map fst props) (maxCollectionSize cfg))) of
                        Inl e \<Rightarrow> Inl e
                      | Inr kvs \<Rightarrow>
                          (let children = assign_all kvs
                           in Inr (CapturedVariable name ty preview False False
                                     (if length children > 0 then Some children else None)
                                     None None)))
                   else Inr (CapturedVariable name ty preview False False None None None))))"
  by pat_completeness auto
termination
  by (relation "measure (\<lambda>(cfg, h, stack, name, v, depth). nat (maxCaptureDepth cfg - depth))")
     auto

declare captureValue.simps [simp del]


text \<open>
  One iteration of the loop over the keys of a plain object: \<^verbatim>\<open>value[key]\<close> and the
  recursive call, paired with the key.
\<close>

definition read_property ::
  "AgentConfig \<Rightarrow> heap \<Rightarrow> nat \<Rightarrow> (string \<times> jsprop) list \<Rightarrow> int \<Rightarrow> string \<Rightarrow>
     js_error + string \<times> CapturedVariable" where
  "read_property cfg h stack props depth key =
     (case map_of props key of
        None \<Rightarrow>
          if stack = 0 then Inl StackOverflow
          else map_sum id (Pair key) (captureValue cfg h (stack - 1) key JUndefined (depth + 1))
      | Some Throws \<Rightarrow> Inl GetterError
      | Some (Data x) \<Rightarrow>
          if stack = 0 then Inl StackOverflow
          else map_sum id (Pair key) (captureValue cfg h (stack - 1) key x (depth + 1)))"


text \<open>No object of the heap makes a read throw: every date is valid, no getter throws.\<close>

definition well_behaved :: "jsobj \<Rightarrow> bool" where
  "well_behaved ob =
     (case ob of
        DateObj rendered \<Rightarrow> rendered \<noteq> None
      | Plain ctor preview props \<Rightarrow> list_all (\<lambda>kp. snd kp \<noteq> Throws) props
      | _ \<Rightarrow> True)"

text \<open>Heaps used as concrete inputs below.\<close>

definition invalid_date_heap :: heap where
  "invalid_date_heap = (\<lambda>a. if a = 0 then DateObj None else Arr [JObject 0])"

definition self_ref_heap :: heap where
  "self_ref_heap =
     (\<lambda>a. Plain (Some ''Node'') ''Node { self: [Circular] }'' [(''self'', Data (JObject a))])"

definition three_props_heap :: heap where
  "three_props_heap =
     (\<lambda>a. Plain (Some ''Object'') ''{ a: 1, b: 2, c: 3 }''
             [(''a'', Data (JNumber ''1'')), (''b'', Data (JNumber ''2'')),
              (''c'', Data (JNumber ''3''))])"

definition pair_array_heap :: heap where
  "pair_array_heap = (\<lambda>a. Arr [JNumber ''1'', JString ''x''])"

section \<open>Stack trace parser (ExceptionHandler.parseStackTrace)\<close>

text \<open>
  The error object as the parser and the fingerprint read it.  \<^verbatim>\<open>stack\<close> is a string
  or absent.
\<close>

record JSError =
  error_name :: string
  error_message :: string
  error_stack :: "string option"

record StackFrame =
  methodName :: string
  fileName :: "string option"
  filePath :: "string option"
  lineNumber :: "nat option"
  columnNumber :: "nat option"
  isNative :: bool

text \<open>
  The string operations of the runtime that the parser calls.  Character classes are
  those of the runtime restricted to one-byte code units: white space of \<^verbatim>\<open>trim()\<close> and
  \<^verbatim>\<open>\s\<close> is TAB, LF, VT, FF, CR, SPACE and NBSP; the dot of a regular expression
  matches everything but LF and CR; \<^verbatim>\<open>\d\<close> is an ASCII digit.  \<^verbatim>\<open>split\<close> returns
  at least one part.  \<^verbatim>\<open>parseInt\<close> is applied to digit strings only; the model
  keeps the number the digits denote.  The runtime keeps a double: from \<open>2\<^sup>5\<^sup>3\<close> on
  it rounds the number, and from \<open>10\<^sup>2\<^sup>1\<close> on a template literal prints it in
  exponent notation, so for line and column numbers of that size the parsed value and
  its text in the fingerprint seed differ from the model's.
\<close>

definition is_space :: "char \<Rightarrow> bool" where
  "is_space c = (of_char c \<in> {9, 10, 11, 12, 13, 32, 160 :: nat})"

definition is_line_terminator :: "char \<Rightarrow> bool" where
  "is_line_terminator c = (of_char c \<in> {10, 13 :: nat})"

definition is_digit :: "char \<Rightarrow> bool" where
  "is_digit c = (48 \<le> (of_char c :: nat) \<and> (of_char c :: nat) \<le> 57)"

definition trim :: "string \<Rightarrow> string" where
  "trim s = rev (dropWhile is_space (rev (dropWhile is_space s)))"

definition startsWith :: "string \<Rightarrow> string \<Rightarrow> bool" where
  "startsWith s p = (take (length p) s = p)"

fun includes_str :: "string \<Rightarrow> string \<Rightarrow> bool" where
  "includes_str [] p = (p = [])"
| "includes_str (c # cs) p = (startsWith (c # cs) p \<or> includes_str cs p)"

fun replace_first :: "string \<Rightarrow> string \<Rightarrow> string \<Rightarrow> string" where
  "replace_first [] p r = (if p = [] then r else [])"
| "replace_first (c # cs) p r =
     (if startsWith (c # cs) p then r @ drop (length p) (c # cs)
      else c # replace_first cs p r)"

fun split_where :: "(char \<Rightarrow> bool) \<Rightarrow> string \<Rightarrow> string list" where
  "split_where sep [] = [[]]"
| "split_where sep (c # cs) =
     (if sep c then [] # split_where sep cs
      else (case split_where sep cs of
              [] \<Rightarrow> [[c]]
            | part # parts \<Rightarrow> (c # part) # parts))"

definition parseInt :: "string \<Rightarrow> nat" where
  "parseInt ds = foldl (\<lambda>n c. 10 * n + (of_char c - 48)) 0 ds"

text \<open>
  \<^verbatim>\<open>content.match(/^(.+?)\s+\((.+)\)$/)\<close>.  The first group is lazy: the matcher
  tries the prefixes of the content from the shortest on, and for each one the rest must
  be white space, an opening parenthesis, at least one character, and a closing
  parenthesis at the end of the string.  \<open>paren_tail\<close> matches that rest and
  yields the second group.
\<close>

definition paren_tail :: "string \<Rightarrow> string option" where
  "paren_tail r =
     (let r' = dropWhile is_space r
      in if r \<noteq> [] \<and> is_space (hd r) \<and> 3 \<le> length r' \<and> hd r' = CHR ''(''
            \<and> last r' = CHR '')'' \<and> list_all (\<lambda>c. \<not> is_line_terminator c) (butlast (tl r'))
         then Some (butlast (tl r')) else None)"

fun func_match_from :: "string \<Rightarrow> string \<Rightarrow> (string \<times> string) option" where
  "func_match_from pre [] = None"
| "func_match_from pre (c # cs) =
     (if is_line_terminator c then None
      else (case paren_tail cs of
              Some loc \<Rightarrow> Some (pre @ [c], loc)
            | None \<Rightarrow> func_match_from (pre @ [c]) cs))"

definition funcMatch :: "string \<Rightarrow> (string \<times> string) option" where
  "funcMatch content = func_match_from [] content"

text \<open>
  \<^verbatim>\<open>match(/^(.+):(\d+):(\d+)$/)\<close>: the text after the last colon and the text between
  the last two colons are digit strings, and what comes before is not empty.
\<close>

definition locationMatch :: "string \<Rightarrow> (string \<times> nat \<times> nat) option" where
  "locationMatch s =
     (let r = rev s;
          cnum = takeWhile is_digit r;
          r1 = dropWhile is_digit r
      in if cnum = [] \<or> r1 = [] \<or> hd r1 \<noteq> CHR '':'' then None
         else
           let lnum = takeWhile is_digit (tl r1);
               r2 = dropWhile is_digit (tl r1)
           in if lnum = [] \<or> r2 = [] \<or> hd r2 \<noteq> CHR '':'' then None
              else
                let path = rev (tl r2)
                in if path = [] \<or> \<not> list_all (\<lambda>c. \<not> is_line_terminator c) path then None
                   else Some (path, parseInt (rev lnum), parseInt (rev cnum)))"

definition getFileName :: "string \<Rightarrow> string" where
  "getFileName path = last (split_where (\<lambda>c. c = CHR ''/'' \<or> c = CHR 0x5C) path)"

definition parseLocation :: "string \<Rightarrow> string \<Rightarrow> StackFrame" where
  "parseLocation method location =
     (if location = ''native'' \<or> includes_str location ''[native code]''
      then \<lparr>methodName = method, fileName = None, filePath = None, lineNumber = None,
            columnNumber = None, isNative = True\<rparr>
      else (case locationMatch location of
              Some (path, lnum, cnum) \<Rightarrow>
                \<lparr>methodName = method, fileName = Some (getFileName path), filePath = Some path,
                 lineNumber = Some lnum, columnNumber = Some cnum, isNative = False\<rparr>
            | None \<Rightarrow>
                \<lparr>methodName = method, fileName = None, filePath = Some location,
                 lineNumber = None, columnNumber = None, isNative = False\<rparr>))"

definition parseStackFrame :: "string \<Rightarrow> StackFrame option" where
  "parseStackFrame line =
     (let trimmed = trim line
      in if \<not> startsWith trimmed ''at '' then None
         else
           let content = drop 3 trimmed
           in (case funcMatch content of
                 Some (method, location) \<Rightarrow> Some (parseLocation method location)
               | None \<Rightarrow>
                   (case locationMatch content of
                      Some (path, lnum, cnum) \<Rightarrow>
                        Some \<lparr>methodName = ''<anonymous>'', fileName = Some (getFileName path),
                              filePath = Some path, lineNumber = Some lnum,
                              columnNumber = Some cnum, isNative = False\<rparr>
                    | None \<Rightarrow>
                        if includes_str content ''[native code]'' \<or> startsWith content ''native''
                        then Some \<lparr>methodName = replace_first content '' [native code]'' [],
                                   fileName = None, filePath = None, lineNumber = None,
                                   columnNumber = None, isNative = True\<rparr>
                        else Some \<lparr>methodName = content, fileName = None, filePath = None,
                                   lineNumber = None, columnNumber = None, isNative = False\<rparr>)))"

text \<open>
  The loop of \<^verbatim>\<open>parseStackTrace\<close> over the lines, with the array \<^verbatim>\<open>frames\<close> built
  so far; \<^verbatim>\<open>break\<close> once it holds 50 frames.
\<close>

fun collect_frames :: "StackFrame list \<Rightarrow> string list \<Rightarrow> StackFrame list" where
  "collect_frames frames [] = frames"
| "collect_frames frames (line # rest) =
     (let frames' = (case parseStackFrame line of
                       Some frame \<Rightarrow> frames @ [frame]
                     | None \<Rightarrow> frames)
      in if 50 \<le> length frames' then frames' else collect_frames frames' rest)"

definition parseStackTrace :: "JSError \<Rightarrow> StackFrame list" where
  "parseStackTrace error =
     collect_frames []
       (drop 1 (split_where (\<lambda>c. c = CHR 0x0A)
                  (case error_stack error of None \<Rightarrow> [] | Some s \<Rightarrow> s)))"

section \<open>Fingerprint (ExceptionHandler.calculateFingerprint)\<close>

text \<open>
  \<^verbatim>\<open>createHash('sha256')\<close> is the SHA-256 of the runtime's crypto module, written out
  here after FIPS 180-4: padding, message schedule, 64 rounds per block; the round
  constants and the initial hash value are written in decimal.
  \<^verbatim>\<open>hash.update(string)\<close> hashes the UTF-8 bytes of the string, and
  \<^verbatim>\<open>digest('hex')\<close> prints the eight words in lowercase hexadecimal.
\<close>

type_synonym u32 = "32 word"

definition K256 :: "u32 list" where
  "K256 =
     [1116352408, 1899447441, 3049323471, 3921009573, 961987163, 1508970993, 2453635748, 2870763221,
      3624381080, 310598401, 607225278, 1426881987, 1925078388, 2162078206, 2614888103, 3248222580,
      3835390401, 4022224774, 264347078, 604807628, 770255983, 1249150122, 1555081692, 1996064986,
      2554220882, 2821834349, 2952996808, 3210313671, 3336571891, 3584528711, 113926993, 338241895,
      666307205, 773529912, 1294757372, 1396182291, 1695183700, 1986661051, 2177026350, 2456956037,
      2730485921, 2820302411, 3259730800, 3345764771, 3516065817, 3600352804, 4094571909, 275423344,
      430227734, 506948616, 659060556, 883997877, 958139571, 1322822218, 1537002063, 1747873779,
      1955562222, 2024104815, 2227730452, 2361852424, 2428436474, 2756734187, 3204031479, 3329325298]"

type_synonym sha_state = "u32 \<times> u32 \<times> u32 \<times> u32 \<times> u32 \<times> u32 \<times> u32 \<times> u32"

definition H256 :: sha_state where
  "H256 = (1779033703, 3144134277, 1013904242, 2773480762,
           1359893119, 2600822924, 528734635, 1541459225)"

definition rotr :: "nat \<Rightarrow> u32 \<Rightarrow> u32" where
  "rotr n x = word_rotr n x"

definition ch :: "u32 \<Rightarrow> u32 \<Rightarrow> u32 \<Rightarrow> u32" where
  "ch x y z = (x AND y) XOR (NOT x AND z)"

definition maj :: "u32 \<Rightarrow> u32 \<Rightarrow> u32 \<Rightarrow> u32" where
  "maj x y z = (x AND y) XOR (x AND z) XOR (y AND z)"

definition bsig0 :: "u32 \<Rightarrow> u32" where
  "bsig0 x = rotr 2 x XOR rotr 13 x XOR rotr 22 x"

definition bsig1 :: "u32 \<Rightarrow> u32" where
  "bsig1 x = rotr 6 x XOR rotr 11 x XOR rotr 25 x"

definition ssig0 :: "u32 \<Rightarrow> u32" where
  "ssig0 x = rotr 7 x XOR rotr 18 x XOR drop_bit 3 x"

definition ssig1 :: "u32 \<Rightarrow> u32" where
  "ssig1 x = rotr 17 x XOR rotr 19 x XOR drop_bit 10 x"

definition sha_pad :: "8 word list \<Rightarrow> 8 word list" where
  "sha_pad bs =
     (let n = length bs;
          bits = (of_nat (8 * n) :: 64 word)
      in bs @ [0x80] @ replicate ((119 - n mod 64) mod 64) 0 @
         map (\<lambda>i. ucast (drop_bit (8 * i) bits)) [7, 6, 5, 4, 3, 2, 1, 0])"

definition be32 :: "8 word list \<Rightarrow> u32" where
  "be32 bs = foldl (\<lambda>w b. push_bit 8 w OR ucast b) 0 bs"

function chunks :: "nat \<Rightarrow> 'a list \<Rightarrow> 'a list list" where
  "chunks n xs = (if n = 0 \<or> xs = [] then [] else take n xs # chunks n (drop n xs))"
  by pat_completeness auto
termination
  by (relation "measure (\<lambda>(n, xs). length xs)") auto

declare chunks.simps [simp del]

definition schedule_step :: "u32 list \<Rightarrow> u32 list" where
  "schedule_step w =
     (let t = length w
      in w @ [ssig1 (w ! (t - 2)) + w ! (t - 7) + ssig0 (w ! (t - 15)) + w ! (t - 16)])"

definition schedule :: "8 word list \<Rightarrow> u32 list" where
  "schedule block = (schedule_step ^^ 48) (map be32 (chunks 4 block))"

definition sha_round :: "u32 \<times> u32 \<Rightarrow> sha_state \<Rightarrow> sha_state" where
  "sha_round kw st =
     (case st of (a, b, c, d, e, f, g, h) \<Rightarrow>
        let t1 = h + bsig1 e + ch e f g + fst kw + snd kw;
            t2 = bsig0 a + maj a b c
        in (t1 + t2, a, b, c, d + t1, e, f, g))"

definition sha_compress :: "8 word list \<Rightarrow> sha_state \<Rightarrow> sha_state" where
  "sha_compress block st =
     (case st of (a, b, c, d, e, f, g, h) \<Rightarrow>
        (case fold sha_round (zip K256 (schedule block)) st of
           (a', b', c', d', e', f', g', h') \<Rightarrow>
             (a + a', b + b', c + c', d + d', e + e', f + f', g + g', h + h')))"

definition sha256 :: "8 word list \<Rightarrow> u32 list" where
  "sha256 bs =
     (case fold sha_compress (chunks 64 (sha_pad bs)) H256 of
        (a, b, c, d, e, f, g, h) \<Rightarrow> [a, b, c, d, e, f, g, h])"

definition hex_digit :: "nat \<Rightarrow> char" where
  "hex_digit n = ''0123456789abcdef'' ! n"

definition hex32 :: "u32 \<Rightarrow> string" where
  "hex32 w = map (\<lambda>i. hex_digit (unat (drop_bit (4 * i) w AND 15))) [7, 6, 5, 4, 3, 2, 1, 0]"

definition utf8 :: "string \<Rightarrow> 8 word list" where
  "utf8 s =
     concat (map (\<lambda>c. let u = (of_char c :: nat)
                       in if u < 128 then [of_nat u]
                          else [of_nat (192 + u div 64), of_nat (128 + u mod 64)]) s)"

definition sha256_hex :: "string \<Rightarrow> string" where
  "sha256_hex s = concat (map hex32 (sha256 (utf8 s)))"

text \<open>
  \<^verbatim>\<open>parts.join(':')\<close>, and the loop that pushes \<^verbatim>\<open>methodName:lineNumber\<close> for the
  frames that are not native until five are added.  \<^verbatim>\<open>frame.lineNumber || 0\<close> prints 0
  for a missing line number.
\<close>

fun join :: "string list \<Rightarrow> string \<Rightarrow> string" where
  "join [] sep = []"
| "join [p] sep = p"
| "join (p # q # ps) sep = p @ sep @ join (q # ps) sep"

fun fingerprint_parts :: "nat \<Rightarrow> StackFrame list \<Rightarrow> string list" where
  "fingerprint_parts added [] = []"
| "fingerprint_parts added (frame # rest) =
     (if 5 \<le> added then []
      else if isNative frame then fingerprint_parts added rest
      else (methodName frame @ '':'' @
              show_nat (case lineNumber frame of None \<Rightarrow> 0 | Some n \<Rightarrow> n))
           # fingerprint_parts (added + 1) rest)"

definition calculateFingerprint :: "JSError \<Rightarrow> StackFrame list \<Rightarrow> string" where
  "calculateFingerprint error stackTrace =
     (let parts = [if error_name error = [] then ''Error'' else error_name error]
                  @ fingerprint_parts 0 stackTrace
      in take 16 (sha256_hex (join parts '':'')))"

section \<open>Capture pipeline (createCapture, handleException, install, uninstall)\<close>

record ExceptionPayload =
  payload_id :: string
  exceptionType :: string
  payload_message :: string
  fingerprint :: string
  stackTrace :: "StackFrame list"
  localVariables :: "(string \<times> CapturedVariable) list"
  payload_context :: "(string \<times> ctxval) list"
  capturedAt :: string

text \<open>
  Object spread \<^verbatim>\<open>{...target, ...source}\<close>: the entries of the source are assigned
  to the target in turn.  \<^verbatim>\<open>getCustomContext()\<close> returns a copy.
\<close>

definition spread :: "(string \<times> 'a) list \<Rightarrow> (string \<times> 'a) list \<Rightarrow> (string \<times> 'a) list" where
  "spread target source = fold (\<lambda>(k, v) acc. AList.update k v acc) source target"

definition getCustomContext :: "AgentConfig \<Rightarrow> (string \<times> ctxval) list" where
  "getCustomContext cfg = spread [] (customContext cfg)"

definition getUser :: "AgentConfig \<Rightarrow> User" where
  "getUser cfg = user cfg"

text \<open>
  \<^verbatim>\<open>createCapture(error, context)\<close>.  \<^verbatim>\<open>randomUUID()\<close> and the current time are
  inputs.  A missing \<^verbatim>\<open>context\<close> spreads as the empty object.
\<close>

definition createCapture ::
  "AgentConfig \<Rightarrow> JSError \<Rightarrow> (string \<times> ctxval) list option \<Rightarrow> string \<Rightarrow> string \<Rightarrow>
     ExceptionPayload" where
  "createCapture cfg error ctx uuid now =
     (let frames = parseStackTrace error;
          fp = calculateFingerprint error frames
      in \<lparr>payload_id = uuid,
          exceptionType = (if error_name error = [] then ''Error'' else error_name error),
          payload_message = error_message error,
          fingerprint = fp,
          stackTrace = frames,
          localVariables = [],
          payload_context =
            AList.update ''user'' (UserObj (getUser cfg))
              (spread (spread [] (getCustomContext cfg))
                      (case ctx of None \<Rightarrow> [] | Some c \<Rightarrow> c)),
          capturedAt = now\<rparr>)"

text \<open>
  The handler object and the global event target.  \<^verbatim>\<open>install()\<close> registers one
  listener for \<^verbatim>\<open>error\<close> and one for \<^verbatim>\<open>unhandledrejection\<close>; a listener is given
  here by the event it listens to, and runs \<^verbatim>\<open>handleException\<close> of the handler with
  the origin tag as context.  The source has no call of \<^verbatim>\<open>removeEventListener\<close>.
  The random draw of \<^verbatim>\<open>shouldSample()\<close>, the identifier and the time of a delivery
  are inputs, and so is \<^verbatim>\<open>JSON.stringify\<close> of the envelope.  \<open>shutdown\<close> below is the
  part of the module's \<^verbatim>\<open>shutdown()\<close> that acts on the handler and the connection.
\<close>

datatype origin = OnError | OnUnhandledRejection

definition origin_tag :: "origin \<Rightarrow> string" where
  "origin_tag ev = (case ev of OnError \<Rightarrow> ''error'' | OnUnhandledRejection \<Rightarrow> ''unhandledrejection'')"

record entropy =
  random :: rat
  uuid :: string
  now :: string

record agent =
  installed :: bool
  listeners :: "origin list"
  connection :: transport

definition install :: "agent \<Rightarrow> agent" where
  "install a =
     (if installed a then a
      else a\<lparr>listeners := listeners a @ [OnError, OnUnhandledRejection], installed := True\<rparr>)"

definition uninstall :: "agent \<Rightarrow> agent" where
  "uninstall a = (if \<not> installed a then a else a\<lparr>installed := False\<rparr>)"

definition shouldSample :: "AgentConfig \<Rightarrow> rat \<Rightarrow> bool" where
  "shouldSample cfg draw =
     (if samplingRate cfg \<ge> 1 then True
      else if samplingRate cfg \<le> 0 then False
      else draw < samplingRate cfg)"

definition sendException ::
  "(ExceptionPayload \<Rightarrow> string) \<Rightarrow> ExceptionPayload \<Rightarrow> transport \<Rightarrow> transport" where
  "sendException stringify capture s = send (stringify capture) s"

definition handleException ::
  "AgentConfig \<Rightarrow> (ExceptionPayload \<Rightarrow> string) \<Rightarrow> JSError \<Rightarrow>
     (string \<times> ctxval) list option \<Rightarrow> entropy \<Rightarrow> agent \<Rightarrow> agent" where
  "handleException cfg stringify error ctx en a =
     (if \<not> shouldSample cfg (random en) then a
      else a\<lparr>connection :=
               sendException stringify (createCapture cfg error ctx (uuid en) (now en))
                 (connection a)\<rparr>)"

definition dispatchEvent ::
  "AgentConfig \<Rightarrow> (ExceptionPayload \<Rightarrow> string) \<Rightarrow> origin \<Rightarrow> JSError \<Rightarrow> entropy \<Rightarrow>
     agent \<Rightarrow> agent" where
  "dispatchEvent cfg stringify ev error en a =
     fold (\<lambda>l acc. if l = ev
                    then handleException cfg stringify error
                           (Some [(''origin'', Val (JString (origin_tag ev)))]) en acc
                    else acc)
          (listeners a) a"

definition shutdown :: "agent \<Rightarrow> agent" where
  "shutdown a = (uninstall a)\<lparr>connection := disconnect (connection a)\<rparr>"

definition new_agent :: "bool \<Rightarrow> agent" where
  "new_agent url_ok = \<lparr>installed = False, listeners = [], connection = new_BackendConnection url_ok\<rparr>"

section \<open>Properties of the transport\<close>

lemma messageQueue_ws_send [simp]: "messageQueue (ws_send fr s) = messageQueue s"
  by (simp add: ws_send_def split: option.splits)

lemma ws_open_ws_send [simp]: "ws_open (ws_send fr s) = ws_open s"
  by (simp add: ws_send_def ws_open_def sock_state_def split: option.splits)

lemma ws_ws_send [simp]: "ws (ws_send fr s) = ws s"
  by (simp add: ws_send_def split: option.splits)

lemma ws_open_queue [simp]: "ws_open (s\<lparr>messageQueue := q\<rparr>) = ws_open s"
  by (simp add: ws_open_def sock_state_def split: option.splits)

lemma wire_ws_send_open:
  "ws_open s \<Longrightarrow> wire (ws_send fr s) = wire s @ [(the (ws s), fr)]"
  by (auto simp: ws_send_def ws_open_def split: option.splits)

lemma flushQueue_closed: "\<not> ws_open s \<Longrightarrow> flushQueue s = s"
  by (subst flushQueue.simps) (simp split: list.splits)

lemma flushQueue_open:
  "ws_open s \<Longrightarrow>
     messageQueue (flushQueue s) = [] \<and>
     wire (flushQueue s) =
       wire s @ map (\<lambda>m. (the (ws s), Text m)) (filter (\<lambda>m. m \<noteq> []) (messageQueue s))"
proof (induction s rule: flushQueue.induct)
  case (1 s)
  show ?case
  proof (cases "messageQueue s")
    case Nil
    then show ?thesis by (subst flushQueue.simps, subst flushQueue.simps) simp
  next
    case (Cons m rest)
    let ?s' = "s\<lparr>messageQueue := rest\<rparr>"
    let ?n = "if m \<noteq> [] then ws_send (Text m) ?s' else ?s'"
    have step: "flushQueue s = flushQueue ?n"
      using Cons "1.prems" by (subst flushQueue.simps) (simp add: Let_def)
    have op: "ws_open ?n" using "1.prems" by simp
    have ih: "messageQueue (flushQueue ?n) = [] \<and>
      wire (flushQueue ?n) = wire ?n @ map (\<lambda>m. (the (ws ?n), Text m)) (filter (\<lambda>m. m \<noteq> []) (messageQueue ?n))"
      using "1.IH"[OF Cons "1.prems"] op by (simp add: Let_def)
    show ?thesis
      using ih "1.prems" Cons unfolding step
      by (auto simp: wire_ws_send_open)
  qed
qed

lemma length_flushQueue: "length (messageQueue (flushQueue s)) \<le> length (messageQueue s)"
  by (cases "ws_open s") (simp_all add: flushQueue_open flushQueue_closed)

lemma messageQueue_scheduleReconnect [simp]:
  "messageQueue (scheduleReconnect s) = messageQueue s"
  by (simp add: scheduleReconnect_def Let_def)

lemma messageQueue_connect [simp]: "messageQueue (connect s) = messageQueue s"
  by (simp add: connect_def)

lemma messageQueue_disconnect [simp]: "messageQueue (disconnect s) = messageQueue s"
  by (simp add: disconnect_def clearTimeout_def ws_close_def Let_def split: option.splits)

lemma step_queue_bound:
  "length (messageQueue s) \<le> 1000 \<Longrightarrow> length (messageQueue (step e s)) \<le> 1000"
proof (cases e)
  case (CallSend m)
  assume "length (messageQueue s) \<le> 1000"
  then show ?thesis using CallSend by (simp add: step_def send_def)
next
  case (SocketMessage k m)
  assume b: "length (messageQueue s) \<le> 1000"
  have "length (messageQueue (flushQueue (s\<lparr>authenticated := True\<rparr>))) \<le> length (messageQueue s)"
    using length_flushQueue[of "s\<lparr>authenticated := True\<rparr>"] by simp
  then show ?thesis using SocketMessage b
    by (cases m) (simp_all add: step_def handleMessage_def)
qed (simp_all add: step_def onopen_def onclose_def authenticate_def clearTimeout_def)

lemma run_queue_bound:
  "length (messageQueue s) \<le> 1000 \<Longrightarrow> length (messageQueue (run es s)) \<le> 1000"
  unfolding run_def
  by (induction es arbitrary: s) (simp_all add: step_queue_bound)

lemma upt_attempts_step:
  "a < 10 \<Longrightarrow> [a..<min (a + Suc k) 10] = a # [Suc a..<min (Suc a + k) 10]"
proof -
  assume "a < 10"
  then have lt: "a < min (Suc a + k) 10" by simp
  have eq: "min (a + Suc k) 10 = min (Suc a + k) 10" by simp
  show ?thesis unfolding eq by (rule upt_conv_Cons[OF lt])
qed

lemma scheduleReconnect_iter:
  "map snd (timers ((scheduleReconnect ^^ k) s)) =
     map snd (timers s) @
     map (\<lambda>n. min (1000 * 2 ^ n) 30000) [reconnectAttempts s..<min (reconnectAttempts s + k) 10]
   \<and> reconnectAttempts ((scheduleReconnect ^^ k) s) =
       (if reconnectAttempts s < 10 then min (reconnectAttempts s + k) 10 else reconnectAttempts s)"
proof (induction k arbitrary: s)
  case 0
  then show ?case by simp
next
  case (Suc k)
  show ?case
  proof (cases "reconnectAttempts s < 10")
    case True
    let ?s = "scheduleReconnect s"
    have a: "reconnectAttempts ?s = Suc (reconnectAttempts s)"
      and t: "map snd (timers ?s) = map snd (timers s) @ [min (1000 * 2 ^ reconnectAttempts s) 30000]"
      using True by (simp_all add: scheduleReconnect_def maxReconnectAttempts_def Let_def)
    show ?thesis
      using Suc.IH[of ?s] True
      by (simp only: funpow_Suc_right o_apply a t upt_attempts_step[OF True]) auto
  next
    case False
    then have "scheduleReconnect s = s"
      by (simp add: scheduleReconnect_def maxReconnectAttempts_def)
    then show ?thesis using Suc.IH[of s] False
      by (simp add: funpow_Suc_right del: funpow.simps)
  qed
qed

lemma backoff_table:
  "map (\<lambda>n. min (1000 * 2 ^ n) (30000::nat)) [0..<10] =
     [1000, 2000, 4000, 8000, 16000, 30000, 30000, 30000, 30000, 30000]"
  by (simp add: upt_rec)

lemma flushQueue_reconnect_frame:
  "reconnectAttempts (flushQueue s) = reconnectAttempts s
   \<and> timers (flushQueue s) = timers s \<and> timerCount (flushQueue s) = timerCount s"
proof (induction s rule: flushQueue.induct)
  case (1 s)
  show ?case
  proof (cases "messageQueue s")
    case Nil
    then show ?thesis by (subst flushQueue.simps, subst flushQueue.simps, subst flushQueue.simps) simp
  next
    case (Cons m rest)
    show ?thesis
    proof (cases "ws_open s")
      case False
      then show ?thesis by (simp add: flushQueue_closed)
    next
      case True
      let ?s' = "s\<lparr>messageQueue := rest\<rparr>"
      let ?n = "if m \<noteq> [] then ws_send (Text m) ?s' else ?s'"
      have unfold: "flushQueue s = flushQueue ?n"
        using Cons True by (subst flushQueue.simps) (simp add: Let_def)
      have same: "reconnectAttempts ?n = reconnectAttempts s \<and> timers ?n = timers s
                  \<and> timerCount ?n = timerCount s"
        by (simp add: ws_send_def split: option.splits)
      show ?thesis
        using "1.IH"[OF Cons True] same unfolding unfold by (simp add: Let_def)
    qed
  qed
qed

lemma exhausted_step:
  assumes "10 \<le> reconnectAttempts s" and "\<forall>k. e \<noteq> SocketOpen k"
  shows "reconnectAttempts (step e s) = reconnectAttempts s
         \<and> set (timers (step e s)) \<subseteq> set (timers s)
         \<and> timerCount (step e s) = timerCount s"
proof (cases e)
  case CallConnect
  then show ?thesis using assms(1)
    by (simp add: step_def connect_def scheduleReconnect_def maxReconnectAttempts_def)
next
  case CallDisconnect
  then show ?thesis
    by (auto simp: step_def disconnect_def clearTimeout_def ws_close_def Let_def split: option.splits)
next
  case (CallSend m)
  then show ?thesis by (simp add: step_def send_def ws_send_def split: option.splits)
next
  case (SocketOpen k)
  then show ?thesis using assms(2) by simp
next
  case (SocketMessage k m)
  then show ?thesis
    using flushQueue_reconnect_frame[of "s\<lparr>authenticated := True\<rparr>"]
    by (cases m) (simp_all add: step_def handleMessage_def)
next
  case (SocketError k)
  then show ?thesis by (simp add: step_def)
next
  case (SocketClose k)
  then show ?thesis using assms(1)
    by (simp add: step_def onclose_def scheduleReconnect_def maxReconnectAttempts_def)
next
  case (TimerFire t)
  then show ?thesis using assms(1)
    by (auto simp: step_def connect_def clearTimeout_def scheduleReconnect_def
        maxReconnectAttempts_def)
qed

lemma counter_monotone_step:
  assumes "\<forall>k. e \<noteq> SocketOpen k"
  shows "reconnectAttempts s \<le> reconnectAttempts (step e s)"
proof (cases e)
  case CallConnect
  then show ?thesis
    by (simp add: step_def connect_def scheduleReconnect_def Let_def)
next
  case CallDisconnect
  then show ?thesis
    by (auto simp: step_def disconnect_def clearTimeout_def ws_close_def Let_def split: option.splits)
next
  case (CallSend m)
  then show ?thesis by (simp add: step_def send_def ws_send_def split: option.splits)
next
  case (SocketOpen k)
  then show ?thesis using assms by simp
next
  case (SocketMessage k m)
  then show ?thesis
    using flushQueue_reconnect_frame[of "s\<lparr>authenticated := True\<rparr>"]
    by (cases m) (simp_all add: step_def handleMessage_def)
next
  case (SocketError k)
  then show ?thesis by (simp add: step_def)
next
  case (SocketClose k)
  then show ?thesis
    by (simp add: step_def onclose_def scheduleReconnect_def Let_def)
next
  case (TimerFire t)
  then show ?thesis
    by (auto simp: step_def connect_def clearTimeout_def scheduleReconnect_def Let_def)
qed

text \<open>
  Claim C4, as stated, fails in its last clause: an explicit \<^verbatim>\<open>connect()\<close> does not
  reset the counter.  From a new connection, let ten sockets in a row fail, each
  reconnect timeout fire, and the eleventh socket fail too: the counter is at 10 and no
  timeout is pending.  An explicit \<^verbatim>\<open>connect()\<close> then opens a twelfth socket and
  leaves the counter at 10; when that socket fails as well, nothing is scheduled.
\<close>

theorem explicit_connect_keeps_counter:
  "reconnectAttempts
     (run [CallConnect, SocketClose 0, TimerFire 0, SocketClose 1, TimerFire 1,
           SocketClose 2, TimerFire 2, SocketClose 3, TimerFire 3, SocketClose 4, TimerFire 4,
           SocketClose 5, TimerFire 5, SocketClose 6, TimerFire 6, SocketClose 7, TimerFire 7,
           SocketClose 8, TimerFire 8, SocketClose 9, TimerFire 9, SocketClose 10,
           CallConnect]
        (new_BackendConnection True)) = 10
   \<and> ws
     (run [CallConnect, SocketClose 0, TimerFire 0, SocketClose 1, TimerFire 1,
           SocketClose 2, TimerFire 2, SocketClose 3, TimerFire 3, SocketClose 4, TimerFire 4,
           SocketClose 5, TimerFire 5, SocketClose 6, TimerFire 6, SocketClose 7, TimerFire 7,
           SocketClose 8, TimerFire 8, SocketClose 9, TimerFire 9, SocketClose 10,
           CallConnect]
        (new_BackendConnection True)) = Some 11
   \<and> reconnectAttempts
     (run [CallConnect, SocketClose 0, TimerFire 0, SocketClose 1, TimerFire 1,
           SocketClose 2, TimerFire 2, SocketClose 3, TimerFire 3, SocketClose 4, TimerFire 4,
           SocketClose 5, TimerFire 5, SocketClose 6, TimerFire 6, SocketClose 7, TimerFire 7,
           SocketClose 8, TimerFire 8, SocketClose 9, TimerFire 9, SocketClose 10,
           CallConnect, SocketClose 11]
        (new_BackendConnection True)) = 10
   \<and> timers
     (run [CallConnect, SocketClose 0, TimerFire 0, SocketClose 1, TimerFire 1,
           SocketClose 2, TimerFire 2, SocketClose 3, TimerFire 3, SocketClose 4, TimerFire 4,
           SocketClose 5, TimerFire 5, SocketClose 6, TimerFire 6, SocketClose 7, TimerFire 7,
           SocketClose 8, TimerFire 8, SocketClose 9, TimerFire 9, SocketClose 10,
           CallConnect, SocketClose 11]
        (new_BackendConnection True)) = []"
  by (simp add: run_def step_def connect_def onclose_def scheduleReconnect_def
      maxReconnectAttempts_def clearTimeout_def ws_open_def sock_state_def
      new_BackendConnection_def Let_def)

text \<open>
  Claim C4, amended.  \<^verbatim>\<open>scheduleReconnect\<close> with fewer than 10 attempts counted sets a
  timeout of \<open>min (1000 \<times> 2\<^sup>n) 30000\<close> milliseconds, \<open>n\<close> the counter, and adds one to
  the counter; with 10 or more it changes nothing.  Scheduling \<open>k\<close> times in a row on a
  new connection gives the first \<open>k\<close> of the delays 1000, 2000, 4000, 8000, 16000 and
  five times 30000, and never more than these ten.  Once the counter is at 10, no event
  other than the opening of a socket changes it or sets a timeout.  The opening of a
  connecting socket, through the \<^verbatim>\<open>onopen\<close> handler, sets the counter to 0, and it
  is the only event that lowers the counter: \<^verbatim>\<open>connect()\<close>, explicit or from a
  timeout, never does.  A newly constructed connection has the counter at 0.
\<close>

theorem reconnect_backoff_schedule:
  "(reconnectAttempts s < 10 \<longrightarrow>
      timers (scheduleReconnect s) =
        timers s @ [(timerCount s, min (1000 * 2 ^ reconnectAttempts s) 30000)]
      \<and> reconnectTimer (scheduleReconnect s) = Some (timerCount s)
      \<and> reconnectAttempts (scheduleReconnect s) = reconnectAttempts s + 1)
   \<and> (10 \<le> reconnectAttempts s \<longrightarrow> scheduleReconnect s = s)
   \<and> map snd (timers ((scheduleReconnect ^^ k) (new_BackendConnection u))) =
       take k [1000, 2000, 4000, 8000, 16000, 30000, 30000, 30000, 30000, 30000]
   \<and> reconnectAttempts ((scheduleReconnect ^^ k) (new_BackendConnection u)) = min k 10
   \<and> (10 \<le> reconnectAttempts s \<and> (\<forall>j. e \<noteq> SocketOpen j) \<longrightarrow>
        reconnectAttempts (step e s) = reconnectAttempts s
        \<and> set (timers (step e s)) \<subseteq> set (timers s)
        \<and> timerCount (step e s) = timerCount s)
   \<and> ((\<forall>j. e \<noteq> SocketOpen j) \<longrightarrow> reconnectAttempts s \<le> reconnectAttempts (step e s))
   \<and> reconnectAttempts s \<le> reconnectAttempts (connect s)
   \<and> (sock_state s i = Some CONNECTING \<longrightarrow> reconnectAttempts (step (SocketOpen i) s) = 0)
   \<and> reconnectAttempts (onopen s) = 0
   \<and> reconnectAttempts (new_BackendConnection u) = 0"
proof -
  have one: "reconnectAttempts s < 10 \<longrightarrow>
      timers (scheduleReconnect s) =
        timers s @ [(timerCount s, min (1000 * 2 ^ reconnectAttempts s) 30000)]
      \<and> reconnectTimer (scheduleReconnect s) = Some (timerCount s)
      \<and> reconnectAttempts (scheduleReconnect s) = reconnectAttempts s + 1"
    by (simp add: scheduleReconnect_def maxReconnectAttempts_def Let_def)
  have stop: "10 \<le> reconnectAttempts s \<longrightarrow> scheduleReconnect s = s"
    by (simp add: scheduleReconnect_def maxReconnectAttempts_def)
  have fresh: "reconnectAttempts (new_BackendConnection u) = 0"
    "timers (new_BackendConnection u) = []"
    by (simp_all add: new_BackendConnection_def)
  have "take k (map (\<lambda>n. min (1000 * 2 ^ n) (30000::nat)) [0..<10]) =
        map (\<lambda>n. min (1000 * 2 ^ n) 30000) [0..<min k 10]"
  proof (cases "k \<le> 10")
    case True
    then have "take k [0..<10] = [0..<min k 10]" by (simp add: min_def)
    then show ?thesis by (simp only: take_map)
  next
    case False
    then have "take k [0..<10] = [0..<min k 10]" by (simp add: min_def)
    then show ?thesis by (simp only: take_map)
  qed
  then have seq: "map snd (timers ((scheduleReconnect ^^ k) (new_BackendConnection u))) =
       take k [1000, 2000, 4000, 8000, 16000, 30000, 30000, 30000, 30000, 30000]"
    using scheduleReconnect_iter[of k "new_BackendConnection u"] fresh
    by (simp only: backoff_table) simp
  have cnt: "reconnectAttempts ((scheduleReconnect ^^ k) (new_BackendConnection u)) = min k 10"
    using scheduleReconnect_iter[of k "new_BackendConnection u"] fresh by simp
  have opn: "reconnectAttempts (onopen t) = 0" for t
    by (simp add: onopen_def authenticate_def ws_send_def split: option.splits)
  have con: "reconnectAttempts s \<le> reconnectAttempts (connect s)"
    using counter_monotone_step[of CallConnect s] by (simp add: step_def)
  have ev: "sock_state s i = Some CONNECTING \<longrightarrow> reconnectAttempts (step (SocketOpen i) s) = 0"
    by (simp add: step_def opn)
  show ?thesis
    using one stop seq cnt opn[of s] fresh(1) exhausted_step[of s e]
      counter_monotone_step[of e s] con ev
    by blast
qed

text \<open>
  Claim C4, amended, at concrete inputs: a new connection, one with the counter at 10,
  twelve schedulings in a row, the close of an open socket with the counter at 10, and
  the opening of a connecting socket with the counter at 7.
\<close>

theorem reconnect_backoff_schedule_witness:
  "timers (scheduleReconnect (new_BackendConnection True)) = [(0, 1000)]
   \<and> reconnectAttempts (scheduleReconnect (new_BackendConnection True)) = 1
   \<and> scheduleReconnect ((new_BackendConnection True)\<lparr>reconnectAttempts := 10\<rparr>) =
       (new_BackendConnection True)\<lparr>reconnectAttempts := 10\<rparr>
   \<and> map snd (timers ((scheduleReconnect ^^ 12) (new_BackendConnection True))) =
       [1000, 2000, 4000, 8000, 16000, 30000, 30000, 30000, 30000, 30000]
   \<and> timers (step (SocketClose 0)
        ((new_BackendConnection True)\<lparr>reconnectAttempts := 10, sockets := [OPEN]\<rparr>)) = []
   \<and> reconnectAttempts (step (SocketOpen 0)
        ((new_BackendConnection True)\<lparr>reconnectAttempts := 7, sockets := [CONNECTING]\<rparr>)) = 0"
  using reconnect_backoff_schedule[where s = "new_BackendConnection True" and k = 12
          and u = True and e = CallConnect and i = 0]
        reconnect_backoff_schedule[where s = "(new_BackendConnection True)\<lparr>reconnectAttempts := 10\<rparr>"
          and k = 0 and u = True and e = CallConnect and i = 0]
        reconnect_backoff_schedule[where
          s = "(new_BackendConnection True)\<lparr>reconnectAttempts := 10, sockets := [OPEN]\<rparr>"
          and k = 0 and u = True and e = "SocketClose 0" and i = 0]
        reconnect_backoff_schedule[where
          s = "(new_BackendConnection True)\<lparr>reconnectAttempts := 7, sockets := [CONNECTING]\<rparr>"
          and k = 0 and u = True and e = CallConnect and i = 0]
  by (simp add: new_BackendConnection_def sock_state_def)

text \<open>
  Claim C3.  In every execution from a new connection the queue holds at most 1000
  messages, and every single step keeps that bound.  While the connection is not both
  open and authenticated, \<^verbatim>\<open>send\<close> appends the message if fewer than 1000 are queued
  and changes nothing if 1000 are.  The acknowledgement of the registration empties the
  queue into the socket, oldest message first, when the socket is open (an empty string
  is taken off the queue without being sent), and leaves the queue as it is otherwise.
\<close>

theorem send_queue_bounded_fifo:
  "length (messageQueue (run es (new_BackendConnection u))) \<le> 1000
   \<and> (length (messageQueue s) \<le> 1000 \<longrightarrow> length (messageQueue (step e s)) \<le> 1000)
   \<and> (\<not> (ws_open s \<and> authenticated s) \<and> length (messageQueue s) < 1000 \<longrightarrow>
        send m s = s\<lparr>messageQueue := messageQueue s @ [m]\<rparr>)
   \<and> (\<not> (ws_open s \<and> authenticated s) \<and> length (messageQueue s) = 1000 \<longrightarrow>
        send m s = s)
   \<and> (ws_open s \<longrightarrow>
        messageQueue (handleMessage Registered s) = [] \<and>
        wire (handleMessage Registered s) =
          wire s @ map (\<lambda>m. (the (ws s), Text m)) (filter (\<lambda>m. m \<noteq> []) (messageQueue s)))
   \<and> (\<not> ws_open s \<longrightarrow>
        messageQueue (handleMessage Registered s) = messageQueue s \<and>
        wire (handleMessage Registered s) = wire s)"
proof -
  have inv: "length (messageQueue (run es (new_BackendConnection u))) \<le> 1000"
    by (rule run_queue_bound) (simp add: new_BackendConnection_def)
  have enq: "\<not> (ws_open s \<and> authenticated s) \<and> length (messageQueue s) < 1000 \<longrightarrow>
        send m s = s\<lparr>messageQueue := messageQueue s @ [m]\<rparr>"
    by (auto simp: send_def)
  have drop: "\<not> (ws_open s \<and> authenticated s) \<and> length (messageQueue s) = 1000 \<longrightarrow> send m s = s"
    by (auto simp: send_def)
  have op: "ws_open (s\<lparr>authenticated := True\<rparr>) = ws_open s"
    by (simp add: ws_open_def sock_state_def split: option.splits)
  have fl: "ws_open s \<longrightarrow>
        messageQueue (handleMessage Registered s) = [] \<and>
        wire (handleMessage Registered s) =
          wire s @ map (\<lambda>m. (the (ws s), Text m)) (filter (\<lambda>m. m \<noteq> []) (messageQueue s))"
    using flushQueue_open[of "s\<lparr>authenticated := True\<rparr>"] op
    by (simp add: handleMessage_def)
  have nf: "\<not> ws_open s \<longrightarrow>
        messageQueue (handleMessage Registered s) = messageQueue s \<and>
        wire (handleMessage Registered s) = wire s"
    using flushQueue_closed[of "s\<lparr>authenticated := True\<rparr>"] op
    by (simp add: handleMessage_def)
  show ?thesis using inv step_queue_bound[of s e] enq drop fl nf by blast
qed

text \<open>
  Claim C3 at concrete inputs: a full queue while disconnected, at an empty one, and at a queue of two
  flushed through an open socket and kept without one.
\<close>

theorem send_queue_bounded_fifo_witness:
  "send ''late'' ((new_BackendConnection True)\<lparr>messageQueue := replicate 1000 ''m''\<rparr>) =
     (new_BackendConnection True)\<lparr>messageQueue := replicate 1000 ''m''\<rparr>
   \<and> messageQueue (send ''x'' (new_BackendConnection True)) = [''x'']
   \<and> messageQueue (handleMessage Registered
        ((new_BackendConnection True)\<lparr>ws := Some 0, sockets := [OPEN], messageQueue := [''a'', ''b'']\<rparr>)) = []
   \<and> wire (handleMessage Registered
        ((new_BackendConnection True)\<lparr>ws := Some 0, sockets := [OPEN], messageQueue := [''a'', ''b'']\<rparr>)) =
       [(0, Text ''a''), (0, Text ''b'')]
   \<and> messageQueue (handleMessage Registered
        ((new_BackendConnection True)\<lparr>messageQueue := [''a'', ''b'']\<rparr>)) = [''a'', ''b'']"
  using send_queue_bounded_fifo[of "[]" True "(new_BackendConnection True)\<lparr>messageQueue := replicate 1000 ''m''\<rparr>" CallConnect "''late''"]
        send_queue_bounded_fifo[of "[]" True "new_BackendConnection True" CallConnect "''x''"]
        send_queue_bounded_fifo[of "[]" True "(new_BackendConnection True)\<lparr>ws := Some 0, sockets := [OPEN], messageQueue := [''a'', ''b'']\<rparr>" CallConnect "''x''"]
        send_queue_bounded_fifo[of "[]" True "(new_BackendConnection True)\<lparr>messageQueue := [''a'', ''b'']\<rparr>" CallConnect "''x''"]
  by (simp add: new_BackendConnection_def ws_open_def sock_state_def)

text \<open>
  Claim C1.  \<^verbatim>\<open>disconnect()\<close> leaves the \<^verbatim>\<open>onclose\<close> handler on the socket it
  closes.  Connect, let the socket open, disconnect, and let the runtime deliver the
  close event of that socket: the handler schedules a reconnect with delay 1000.  When
  that timeout fires, \<^verbatim>\<open>connect()\<close> creates a second socket, and the agent registers
  again once it opens.
\<close>

theorem disconnect_close_event_rearms_reconnect:
  "reconnectTimer (run [CallConnect, SocketOpen 0, CallDisconnect, SocketClose 0] (new_BackendConnection True)) = Some 0
   \<and> timers (run [CallConnect, SocketOpen 0, CallDisconnect, SocketClose 0] (new_BackendConnection True)) = [(0, 1000)]
   \<and> sockets (run [CallConnect, SocketOpen 0, CallDisconnect, SocketClose 0, TimerFire 0] (new_BackendConnection True)) = [CLOSED, CONNECTING]
   \<and> ws (run [CallConnect, SocketOpen 0, CallDisconnect, SocketClose 0, TimerFire 0] (new_BackendConnection True)) = Some 1
   \<and> wire (run [CallConnect, SocketOpen 0, CallDisconnect, SocketClose 0, TimerFire 0, SocketOpen 1] (new_BackendConnection True)) = [(0, Register), (1, Register)]"
  by (simp add: run_def step_def connect_def disconnect_def onopen_def onclose_def authenticate_def
      scheduleReconnect_def maxReconnectAttempts_def clearTimeout_def ws_close_def ws_send_def
      ws_open_def sock_state_def new_BackendConnection_def Let_def)

text \<open>
  What \<^verbatim>\<open>disconnect()\<close> does at the moment of the call: the pending reconnect
  timeout is cancelled, the socket is closed with code 1000, the fields are cleared, and
  a second call changes nothing.
\<close>

lemma disconnect_effects:
  "reconnectTimer (disconnect s) = None
   \<and> (\<forall>t. reconnectTimer s = Some t \<longrightarrow> t \<notin> fst ` set (timers (disconnect s)))
   \<and> ws (disconnect s) = None
   \<and> \<not> authenticated (disconnect s)
   \<and> (\<forall>k. ws s = Some k \<longrightarrow> closes (disconnect s) = closes s @ [(k, 1000)])
   \<and> disconnect (disconnect s) = disconnect s"
  by (auto simp: disconnect_def clearTimeout_def ws_close_def Let_def split: option.splits)

section \<open>Properties of the serializer\<close>

lemma sequence_sum_Inr: "sequence_sum xs = Inr ys \<Longrightarrow> xs = map Inr ys"
  by (induction xs arbitrary: ys) (auto split: sum.splits)

lemma sequence_sum_total:
  "(\<forall>x\<in>set xs. \<exists>y. x = Inr y) \<Longrightarrow> \<exists>ys. sequence_sum xs = Inr ys"
  by (induction xs) (auto split: sum.splits)






lemma captureValue_string:
  "captureValue cfg h stack name (JString s) depth =
     (if int (length s) > maxStringLength cfg
      then Inr (CapturedVariable name ''string'' (slice0 s (maxStringLength cfg))
                  False True None None None)
      else Inr (CapturedVariable name ''string'' s False False None None None))"
  by (subst captureValue.simps) simp

lemma captureValue_array:
  "h a = Arr xs \<Longrightarrow>
   captureValue cfg h stack name (JObject a) depth =
     (if depth < maxCaptureDepth cfg \<and> int (length xs) \<le> maxCollectionSize cfg
      then
        (case sequence_sum
                (map (\<lambda>(i, item).
                        if stack = 0 then Inl StackOverflow
                        else captureValue cfg h (stack - 1)
                               (''['' @ show_nat i @ '']'') item (depth + 1))
                     (enumerate 0 (slice0 xs (maxCollectionSize cfg)))) of
           Inl e \<Rightarrow> Inl e
         | Inr elems \<Rightarrow>
             Inr (CapturedVariable name ''array'' (''Array('' @ show_nat (length xs) @ '')'')
                    False False None (Some elems) (Some (length xs))))
      else Inr (CapturedVariable name ''array'' (''Array('' @ show_nat (length xs) @ '')'')
                  False False None None (Some (length xs))))"
  by (subst captureValue.simps) simp

lemma captureValue_plain:
  "h a = Plain ctor preview props \<Longrightarrow>
   captureValue cfg h stack name (JObject a) depth =
     (let ty = (case ctor of None \<Rightarrow> ''Object'' | Some c \<Rightarrow> if c = [] then ''Object'' else c)
      in if depth < maxCaptureDepth cfg
         then
           (case sequence_sum
                   (map (read_property cfg h stack props depth)
                        (slice0 (map fst props) (maxCollectionSize cfg))) of
              Inl e \<Rightarrow> Inl e
            | Inr kvs \<Rightarrow>
                Inr (CapturedVariable name ty preview False False
                       (if length (assign_all kvs) > 0 then Some (assign_all kvs) else None)
                       None None))
         else Inr (CapturedVariable name ty preview False False None None None))"
  unfolding read_property_def
  by (subst captureValue.simps) (simp add: Let_def split: sum.splits)



lemma captureValue_returns:
  "(\<forall>a. well_behaved (h a)) \<Longrightarrow> maxCaptureDepth cfg - depth \<le> int stack \<Longrightarrow>
     \<exists>cv. captureValue cfg h stack name v depth = Inr cv"
proof (induction cfg h stack name v depth rule: captureValue.induct)
  case (1 cfg h stack name v depth)
  note wb = "1.prems"(1) and fits = "1.prems"(2)
  have deeper: "stack \<noteq> 0 \<and> maxCaptureDepth cfg - (depth + 1) \<le> int (stack - 1)"
    if "depth < maxCaptureDepth cfg"
    using that fits by linarith
  show ?case
  proof (cases v)
    case (JObject a)
    show ?thesis
    proof (cases "h a")
      case (Arr xs)
      let ?zs = "enumerate 0 (slice0 xs (maxCollectionSize cfg))"
      let ?f = "\<lambda>(i, item). if stack = 0 then Inl StackOverflow
                   else captureValue cfg h (stack - 1) (''['' @ show_nat i @ '']'') item (depth + 1)"
      show ?thesis
      proof (cases "depth < maxCaptureDepth cfg \<and> int (length xs) \<le> maxCollectionSize cfg")
        case True
        then have "stack \<noteq> 0 \<and> maxCaptureDepth cfg - (depth + 1) \<le> int (stack - 1)"
          using deeper by blast
        then have nz: "stack \<noteq> 0"
          and fits': "maxCaptureDepth cfg - (depth + 1) \<le> int (stack - 1)"
          by blast+
        have "\<forall>x\<in>set (map ?f ?zs). \<exists>y. x = Inr y"
          using "1.IH"(1)[OF JObject Arr True _ refl nz wb fits'] nz by auto
        then obtain elems where "sequence_sum (map ?f ?zs) = Inr elems"
          using sequence_sum_total by blast
        then show ?thesis using True by (simp add: JObject captureValue_array[of h a xs, OF Arr])
      next
        case False
        then show ?thesis by (auto simp: JObject captureValue_array[of h a xs, OF Arr])
      qed
    next
      case (DateObj rendered)
      have "well_behaved (h a)" using wb by simp
      then obtain t where "rendered = Some t" by (auto simp: DateObj well_behaved_def)
      then show ?thesis using DateObj JObject by (subst captureValue.simps) simp
    next
      case (Plain ctor preview props)
      let ?keys = "slice0 (map fst props) (maxCollectionSize cfg)"
      have nothrow: "\<forall>kp\<in>set props. snd kp \<noteq> Throws"
        using wb[rule_format, of a] by (simp add: Plain well_behaved_def list_all_iff)
      show ?thesis
      proof (cases "depth < maxCaptureDepth cfg")
        case True
        then have "stack \<noteq> 0 \<and> maxCaptureDepth cfg - (depth + 1) \<le> int (stack - 1)"
          using deeper by blast
        then have nz: "stack \<noteq> 0"
          and fits': "maxCaptureDepth cfg - (depth + 1) \<le> int (stack - 1)"
          by blast+
        have "\<forall>x\<in>set (map (read_property cfg h stack props depth) ?keys). \<exists>y. x = Inr y"
        proof
          fix x assume "x \<in> set (map (read_property cfg h stack props depth) ?keys)"
          then obtain key where mem: "key \<in> set ?keys"
            and x: "x = read_property cfg h stack props depth key" by auto
          show "\<exists>y. x = Inr y"
          proof (cases "map_of props key")
            case None
            obtain c where "captureValue cfg h (stack - 1) key JUndefined (depth + 1) = Inr c"
              using "1.IH"(2)[OF JObject Plain refl True mem None nz wb fits'] by blast
            then show ?thesis using nz by (simp add: x read_property_def None)
          next
            case (Some p)
            then have "(key, p) \<in> set props" by (rule map_of_SomeD)
            then have "p \<noteq> Throws" using nothrow by auto
            then obtain y where p: "p = Data y" by (cases p) auto
            obtain c where "captureValue cfg h (stack - 1) key y (depth + 1) = Inr c"
              using "1.IH"(3)[OF JObject Plain refl True mem Some p nz wb fits'] by blast
            then show ?thesis using nz by (simp add: x read_property_def Some p)
          qed
        qed
        then obtain kvs where
          "sequence_sum (map (read_property cfg h stack props depth) ?keys) = Inr kvs"
          using sequence_sum_total by blast
        then show ?thesis using True
          by (simp add: JObject captureValue_plain[of h a ctor preview props, OF Plain] Let_def)
      next
        case False
        then show ?thesis
          by (simp add: JObject captureValue_plain[of h a ctor preview props, OF Plain] Let_def)
      qed
    qed (use JObject in \<open>subst captureValue.simps, simp\<close>)+
  qed (subst captureValue.simps, simp)+
qed







lemma slice0_nonneg: "0 \<le> e \<Longrightarrow> slice0 xs e = take (nat e) xs"
  by (auto simp: slice0_def Let_def min_def)

lemma slice0_whole: "int (length xs) \<le> e \<Longrightarrow> slice0 xs e = xs"
  by (auto simp: slice0_def Let_def min_def)

lemma read_property_key: "read_property cfg h stack props depth key = Inr kv \<Longrightarrow> fst kv = key"
  by (auto simp: read_property_def map_sum_def
      split: option.splits jsprop.splits sum.splits if_splits)

lemma map_Inr_keys:
  "map f keys = map Inr kvs \<Longrightarrow> (\<And>k kv. f k = Inr kv \<Longrightarrow> fst kv = k) \<Longrightarrow> map fst kvs = keys"
  by (induction keys arbitrary: kvs) auto

lemma fold_update_keys:
  "set (map fst (fold (\<lambda>(k, c) acc. AList.update k c acc) kvs acc)) =
     set (map fst kvs) \<union> set (map fst acc)
   \<and> length (fold (\<lambda>(k, c) acc. AList.update k c acc) kvs acc) \<le> length kvs + length acc"
proof (induction kvs arbitrary: acc)
  case Nil
  then show ?case by simp
next
  case (Cons kv kvs)
  obtain k c where kv: "kv = (k, c)" by (cases kv)
  have len: "length (AList.update k c acc) \<le> Suc (length acc)"
    using arg_cong[OF update_keys[of k c acc], of length] by (simp split: if_splits)
  have keys: "set (map fst (AList.update k c acc)) = insert k (set (map fst acc))"
    by (auto simp: update_keys)
  show ?case using Cons.IH[of "AList.update k c acc"] len keys by (auto simp: kv)
qed

lemma assign_all_keys:
  "set (map fst (assign_all kvs)) = set (map fst kvs) \<and> length (assign_all kvs) \<le> length kvs"
  using fold_update_keys[of kvs "[]"] by (simp add: assign_all_def)

text \<open>
  Claim C7, as stated, fails for a negative limit: \<^verbatim>\<open>slice(0, -1)\<close> drops the last
  character, so the value has two characters, not the configured number.
\<close>

theorem string_truncation_negative_limit:
  "int (length ''abc'') > maxStringLength (default_config\<lparr>maxStringLength := - 1\<rparr>)
   \<and> captureValue (default_config\<lparr>maxStringLength := - 1\<rparr>) self_ref_heap 4096
        ''s'' (JString ''abc'') 0 =
       Inr (CapturedVariable ''s'' ''string'' ''ab'' False True None None None)"
  by (simp add: captureValue_string slice0_def default_config_def)

text \<open>
  Claim C7, amended.  For a limit that is not negative, a string longer than the limit
  is rendered as its first \<open>maxStringLength\<close> characters, exactly that many, with
  \<^verbatim>\<open>isTruncated\<close> set.  For any limit, a string no longer than the limit is rendered
  unchanged with \<^verbatim>\<open>isTruncated\<close> unset.
\<close>

theorem string_truncation:
  "(0 \<le> maxStringLength cfg \<and> int (length s) > maxStringLength cfg \<longrightarrow>
      captureValue cfg h stack name (JString s) depth =
        Inr (CapturedVariable name ''string'' (take (nat (maxStringLength cfg)) s)
               False True None None None)
      \<and> int (length (take (nat (maxStringLength cfg)) s)) = maxStringLength cfg)
   \<and> (int (length s) \<le> maxStringLength cfg \<longrightarrow>
      captureValue cfg h stack name (JString s) depth =
        Inr (CapturedVariable name ''string'' s False False None None None))"
  by (auto simp: captureValue_string slice0_nonneg)

text \<open>
  Claim C7, amended, at limit 4, for a string of seven characters and for one of four.
\<close>

theorem string_truncation_witness:
  "captureValue (default_config\<lparr>maxStringLength := 4\<rparr>) self_ref_heap 4096
     ''s'' (JString ''abcdefg'') 0 =
     Inr (CapturedVariable ''s'' ''string'' ''abcd'' False True None None None)
   \<and> captureValue (default_config\<lparr>maxStringLength := 4\<rparr>) self_ref_heap 4096
        ''s'' (JString ''abcd'') 0 =
     Inr (CapturedVariable ''s'' ''string'' ''abcd'' False False None None None)"
  using string_truncation[where cfg = "default_config\<lparr>maxStringLength := 4\<rparr>"
          and s = "''abcdefg''" and h = self_ref_heap and stack = 4096 and name = "''s''"
          and depth = 0]
        string_truncation[where cfg = "default_config\<lparr>maxStringLength := 4\<rparr>"
          and s = "''abcd''" and h = self_ref_heap and stack = 4096 and name = "''s''"
          and depth = 0]
  by (simp add: default_config_def)

text \<open>
  Claim C9, as stated, fails twice.  With the collection limit \<open>-1\<close>, an object with
  three properties gets two children (\<^verbatim>\<open>slice(0, -1)\<close> drops only the last key).  An
  array that holds an invalid date gets no \<^verbatim>\<open>arrayLength\<close>: the capture throws.
\<close>

theorem collection_limit_counterexample:
  "captureValue (default_config\<lparr>maxCollectionSize := - 1\<rparr>) three_props_heap 4096
     ''o'' (JObject 0) 0 =
     Inr (CapturedVariable ''o'' ''Object'' ''{ a: 1, b: 2, c: 3 }'' False False
            (Some [(''a'', CapturedVariable ''a'' ''number'' ''1'' False False None None None),
                   (''b'', CapturedVariable ''b'' ''number'' ''2'' False False None None None)])
            None None)
   \<and> captureValue default_config invalid_date_heap 4096 ''xs'' (JObject 1) 0 = Inl RangeError"
  by (simp add: captureValue.simps three_props_heap_def invalid_date_heap_def default_config_def
      slice0_def assign_all_def enumerate_eq_zip)

lemma array_capture:
  assumes arr: "h a = Arr xs" and res: "captureValue cfg h stack name (JObject a) depth = Inr cv"
  shows "arrayLength cv = Some (length xs) \<and> children cv = None \<and>
         (if depth < maxCaptureDepth cfg \<and> int (length xs) \<le> maxCollectionSize cfg
          then \<exists>elems. arrayElements cv = Some elems \<and> length elems = length xs
          else arrayElements cv = None)"
proof (cases "depth < maxCaptureDepth cfg \<and> int (length xs) \<le> maxCollectionSize cfg")
  case False
  then show ?thesis using res by (auto simp: captureValue_array[of h a xs, OF arr])
next
  case True
  let ?zs = "enumerate 0 (slice0 xs (maxCollectionSize cfg))"
  let ?f = "\<lambda>(i, item). if stack = 0 then Inl StackOverflow
                   else captureValue cfg h (stack - 1) (''['' @ show_nat i @ '']'') item (depth + 1)"
  from res True obtain elems where
    seq: "sequence_sum (map ?f ?zs) = Inr elems"
    and cv: "cv = CapturedVariable name ''array'' (''Array('' @ show_nat (length xs) @ '')'')
                    False False None (Some elems) (Some (length xs))"
    by (auto simp: captureValue_array[of h a xs, OF arr] split: sum.splits)
  have "length (map ?f ?zs) = length (map Inr elems :: (js_error + CapturedVariable) list)"
    using sequence_sum_Inr[OF seq] by simp
  then have "length elems = length xs" using True by (simp add: slice0_whole)
  then show ?thesis using True by (simp add: cv)
qed

lemma plain_capture:
  assumes pl: "h a = Plain ctor preview props"
    and res: "captureValue cfg h stack name (JObject a) depth = Inr cv"
    and nonneg: "0 \<le> maxCollectionSize cfg"
  shows "arrayElements cv = None \<and> arrayLength cv = None \<and>
         (if depth < maxCaptureDepth cfg
          then (case children cv of
                  None \<Rightarrow> take (nat (maxCollectionSize cfg)) (map fst props) = []
                | Some kvs \<Rightarrow>
                    kvs \<noteq> [] \<and> int (length kvs) \<le> maxCollectionSize cfg \<and>
                    set (map fst kvs) = set (take (nat (maxCollectionSize cfg)) (map fst props)))
          else children cv = None)"
proof (cases "depth < maxCaptureDepth cfg")
  case False
  then show ?thesis using res
    by (auto simp: captureValue_plain[of h a ctor preview props, OF pl] Let_def)
next
  case True
  let ?keys = "take (nat (maxCollectionSize cfg)) (map fst props)"
  from res True obtain kvs where
    seq: "sequence_sum (map (read_property cfg h stack props depth) ?keys) = Inr kvs"
    and ch: "children cv = (if length (assign_all kvs) > 0 then Some (assign_all kvs) else None)"
    and rest: "arrayElements cv = None" "arrayLength cv = None"
    by (auto simp: captureValue_plain[of h a ctor preview props, OF pl] Let_def
        slice0_nonneg[OF nonneg] split: sum.splits)
  have keys: "map fst kvs = ?keys"
    by (rule map_Inr_keys[OF sequence_sum_Inr[OF seq]]) (rule read_property_key)
  have len: "length kvs \<le> nat (maxCollectionSize cfg)"
    using arg_cong[OF keys, of length] by simp
  have k1: "set (map fst (assign_all kvs)) = set ?keys"
    and k2: "length (assign_all kvs) \<le> length kvs"
    using assign_all_keys[of kvs] keys by simp_all
  show ?thesis
  proof (cases "assign_all kvs = []")
    case True
    then have "set ?keys = {}" using k1 by simp
    then show ?thesis using \<open>depth < maxCaptureDepth cfg\<close> ch rest True by simp
  next
    case False
    have "int (length (assign_all kvs)) \<le> maxCollectionSize cfg"
      using k2 len nonneg by linarith
    then show ?thesis using \<open>depth < maxCaptureDepth cfg\<close> ch rest False k1 by simp
  qed
qed

text \<open>
  Claim C9, amended.  When the capture of an array returns, \<^verbatim>\<open>arrayLength\<close> is the
  length of the array, and \<^verbatim>\<open>arrayElements\<close> is present, with one element per array
  element, exactly when the depth is below \<^verbatim>\<open>maxCaptureDepth\<close> and the length is at
  most \<^verbatim>\<open>maxCollectionSize\<close>.  When the capture of a plain object returns and
  \<^verbatim>\<open>maxCollectionSize\<close> is not negative: below the depth limit the children are the
  first \<^verbatim>\<open>maxCollectionSize\<close> keys of the object, so at most that many, and the field
  is absent when there is no such key; at or above the depth limit there are no
  children.
\<close>

theorem collection_capture:
  "(h a = Arr xs \<and> captureValue cfg h stack name (JObject a) depth = Inr cv \<longrightarrow>
      arrayLength cv = Some (length xs) \<and> children cv = None \<and>
      (if depth < maxCaptureDepth cfg \<and> int (length xs) \<le> maxCollectionSize cfg
       then \<exists>elems. arrayElements cv = Some elems \<and> length elems = length xs
       else arrayElements cv = None))
   \<and> (h a = Plain ctor preview props \<and> captureValue cfg h stack name (JObject a) depth = Inr cv
        \<and> 0 \<le> maxCollectionSize cfg \<longrightarrow>
      arrayElements cv = None \<and> arrayLength cv = None \<and>
      (if depth < maxCaptureDepth cfg
       then (case children cv of
               None \<Rightarrow> take (nat (maxCollectionSize cfg)) (map fst props) = []
             | Some kvs \<Rightarrow>
                 kvs \<noteq> [] \<and> int (length kvs) \<le> maxCollectionSize cfg \<and>
                 set (map fst kvs) = set (take (nat (maxCollectionSize cfg)) (map fst props)))
       else children cv = None))"
  using array_capture[of h a xs cfg stack name depth cv]
        plain_capture[of h a ctor preview props cfg stack name depth cv]
  by blast

text \<open>
  Claim C9, amended, at an array of two elements and at an object with three properties under a
  collection limit of 2.
\<close>

theorem collection_capture_witness:
  "(\<exists>cv. captureValue default_config pair_array_heap 4096 ''xs'' (JObject 0) 0 = Inr cv
        \<and> arrayLength cv = Some 2
        \<and> (\<exists>elems. arrayElements cv = Some elems \<and> length elems = 2))
   \<and> (\<exists>cv kvs. captureValue (default_config\<lparr>maxCollectionSize := 2\<rparr>) three_props_heap
                   4096 ''o'' (JObject 0) 0 = Inr cv
        \<and> children cv = Some kvs \<and> length kvs \<le> 2 \<and> set (map fst kvs) = {''a'', ''b''})"
proof -
  obtain cv where cv:
    "captureValue default_config pair_array_heap 4096 ''xs'' (JObject 0) 0 = Inr cv"
    using captureValue_returns[of pair_array_heap default_config 0 4096 "''xs''" "JObject 0"]
    by (auto simp: well_behaved_def pair_array_heap_def default_config_def)
  have a: "pair_array_heap 0 = Arr [JNumber ''1'', JString ''x'']"
    by (simp add: pair_array_heap_def)
  have first: "arrayLength cv = Some 2
      \<and> (\<exists>elems. arrayElements cv = Some elems \<and> length elems = 2)"
    using collection_capture[where h = pair_array_heap and a = 0
            and xs = "[JNumber ''1'', JString ''x'']" and cfg = default_config and stack = 4096
            and name = "''xs''" and depth = 0 and cv = cv and ctor = None and preview = "[]"
            and props = "[]"] a cv
    by (auto simp: default_config_def numeral_2_eq_2)
  let ?cfg = "default_config\<lparr>maxCollectionSize := 2\<rparr>"
  obtain cw where cw: "captureValue ?cfg three_props_heap 4096 ''o'' (JObject 0) 0 = Inr cw"
    using captureValue_returns[of three_props_heap ?cfg 0 4096 "''o''" "JObject 0"]
    by (auto simp: well_behaved_def three_props_heap_def default_config_def)
  have p: "three_props_heap 0 = Plain (Some ''Object'') ''{ a: 1, b: 2, c: 3 }''
             [(''a'', Data (JNumber ''1'')), (''b'', Data (JNumber ''2'')),
              (''c'', Data (JNumber ''3''))]"
    by (simp add: three_props_heap_def)
  have "\<exists>kvs. children cw = Some kvs \<and> length kvs \<le> 2 \<and> set (map fst kvs) = {''a'', ''b''}"
    using collection_capture[where h = three_props_heap and a = 0 and xs = "[]" and cfg = ?cfg
            and stack = 4096 and name = "''o''" and depth = 0 and cv = cw
            and ctor = "Some ''Object''" and preview = "''{ a: 1, b: 2, c: 3 }''"
            and props = "[(''a'', Data (JNumber ''1'')), (''b'', Data (JNumber ''2'')),
              (''c'', Data (JNumber ''3''))]"] p cw
    by (auto simp: default_config_def numeral_2_eq_2 split: option.splits)
  then show ?thesis using first cv cw by blast
qed

section \<open>Properties of the parser and the fingerprint\<close>

lemma collect_frames_take:
  "length acc < 50 \<Longrightarrow>
     collect_frames acc ls = take 50 (acc @ List.map_filter parseStackFrame ls)"
proof (induction ls arbitrary: acc)
  case Nil
  then show ?case by (simp add: List.map_filter_simps)
next
  case (Cons l ls)
  show ?case
  proof (cases "parseStackFrame l")
    case None
    then show ?thesis using Cons by (simp add: List.map_filter_simps)
  next
    case (Some f)
    show ?thesis
    proof (cases "50 \<le> length (acc @ [f])")
      case True
      then have "length acc = 49" using Cons.prems by simp
      then show ?thesis using Some True by (simp add: List.map_filter_simps)
    next
      case False
      then have "length (acc @ [f]) < 50" by simp
      from Cons.IH[OF this] show ?thesis using Some False
        by (simp add: List.map_filter_simps)
    qed
  qed
qed

text \<open>
  Claim C8.  \<^const>\<open>parseStackTrace\<close> is a total function of the error: every step of
  the source is an operation on strings that cannot throw.  Its result is the first 50
  frames, in the order of the lines, that \<^const>\<open>parseStackFrame\<close> yields for the lines
  after the first one; lines that yield no frame and frames beyond the fiftieth are
  dropped.
\<close>

theorem parseStackTrace_total_capped:
  "length (parseStackTrace error) \<le> 50
   \<and> parseStackTrace error =
       take 50 (List.map_filter parseStackFrame
                  (drop 1 (split_where (\<lambda>c. c = CHR 0x0A)
                             (case error_stack error of None \<Rightarrow> [] | Some s \<Rightarrow> s))))"
  by (simp add: parseStackTrace_def collect_frames_take)

lemma fingerprint_parts_take:
  "added \<le> 5 \<Longrightarrow>
     fingerprint_parts added frames =
       map (\<lambda>f. methodName f @ '':'' @ show_nat (case lineNumber f of None \<Rightarrow> 0 | Some n \<Rightarrow> n))
           (take (5 - added) (filter (\<lambda>f. \<not> isNative f) frames))"
proof (induction frames arbitrary: added)
  case Nil
  then show ?case by simp
next
  case (Cons f fs)
  show ?case
  proof (cases "5 \<le> added")
    case True
    then show ?thesis by simp
  next
    case False
    then have lt: "added < 5" by simp
    show ?thesis
    proof (cases "isNative f")
      case True
      then show ?thesis using Cons.IH[OF Cons.prems] lt by simp
    next
      case False
      have "5 - added = Suc (5 - (added + 1))" using lt by simp
      then show ?thesis using Cons.IH[of "added + 1"] lt False by simp
    qed
  qed
qed

lemma hex_digit_range: "n < 16 \<Longrightarrow> hex_digit n \<in> set ''0123456789abcdef''"
  unfolding hex_digit_def by (rule nth_mem) simp

lemma nibble_bound: "unat ((w :: u32) AND 15) < 16"
proof -
  have "unat (w AND 15) \<le> unat (15 :: u32)"
    by (rule word_and_le1 [THEN word_le_nat_alt [THEN iffD1]])
  then show ?thesis by simp
qed

lemma hex32_props: "length (hex32 w) = 8 \<and> set (hex32 w) \<subseteq> set ''0123456789abcdef''"
  unfolding hex32_def using hex_digit_range[OF nibble_bound] by auto

lemma sha256_length: "length (sha256 bs) = 8"
  by (simp add: sha256_def split: prod.splits)

lemma concat_fixed_length:
  "(\<forall>x\<in>set xs. length x = n) \<Longrightarrow> length (concat xs) = n * length xs"
  by (induction xs) auto

lemma sha256_hex_props:
  "length (sha256_hex s) = 64 \<and> set (sha256_hex s) \<subseteq> set ''0123456789abcdef''"
proof -
  have "length (concat (map hex32 (sha256 (utf8 s)))) = 8 * length (map hex32 (sha256 (utf8 s)))"
    by (rule concat_fixed_length) (simp add: hex32_props)
  then have "length (sha256_hex s) = 64" by (simp add: sha256_hex_def sha256_length)
  moreover have "set (sha256_hex s) \<subseteq> set ''0123456789abcdef''"
    unfolding sha256_hex_def using hex32_props by fastforce
  ultimately show ?thesis by blast
qed

text \<open>
  Claim C5.  The fingerprint is a function of the error and the frames, always 16
  characters long and made of the characters \<open>0-9a-f\<close>.  Two errors with the same
  exception type (\<^verbatim>\<open>error.name || 'Error'\<close>) whose first five frames that are not native agree on method name and line number
  have the same fingerprint, whatever their messages and their other frames are.
\<close>

theorem fingerprint_deterministic_hex:
  "length (calculateFingerprint error frames) = 16
   \<and> set (calculateFingerprint error frames) \<subseteq> set ''0123456789abcdef''
   \<and> ((if error_name e1 = [] then ''Error'' else error_name e1) =
        (if error_name e2 = [] then ''Error'' else error_name e2) \<and>
        map (\<lambda>f. (methodName f, lineNumber f)) (take 5 (filter (\<lambda>f. \<not> isNative f) st1)) =
        map (\<lambda>f. (methodName f, lineNumber f)) (take 5 (filter (\<lambda>f. \<not> isNative f) st2))
      \<longrightarrow> calculateFingerprint e1 st1 = calculateFingerprint e2 st2)"
proof -
  let ?fp = "calculateFingerprint error frames"
  let ?parts = "[if error_name error = [] then ''Error'' else error_name error]
                  @ fingerprint_parts 0 frames"
  have fp: "?fp = take 16 (sha256_hex (join ?parts '':''))"
    by (simp add: calculateFingerprint_def)
  have len: "length ?fp = 16"
    unfolding fp using sha256_hex_props[of "join ?parts '':''"] by simp
  have "set ?fp \<subseteq> set (sha256_hex (join ?parts '':''))"
    unfolding fp by (rule set_take_subset)
  then have chars: "set ?fp \<subseteq> set ''0123456789abcdef''"
    using sha256_hex_props[of "join ?parts '':''"] by blast
  let ?key = "\<lambda>f. (methodName f, lineNumber f)"
  let ?render = "\<lambda>f. methodName f @ '':'' @ show_nat (case lineNumber f of None \<Rightarrow> 0 | Some n \<Rightarrow> n)"
  let ?top = "\<lambda>st. take 5 (filter (\<lambda>f. \<not> isNative f) st)"
  have same: "calculateFingerprint e1 st1 = calculateFingerprint e2 st2"
    if n: "(if error_name e1 = [] then ''Error'' else error_name e1) =
           (if error_name e2 = [] then ''Error'' else error_name e2)" and k: "map ?key (?top st1) = map ?key (?top st2)"
  proof -
    have "map ((\<lambda>p. fst p @ '':'' @ show_nat (case snd p of None \<Rightarrow> 0 | Some n \<Rightarrow> n)) \<circ> ?key) (?top st1)
        = map ((\<lambda>p. fst p @ '':'' @ show_nat (case snd p of None \<Rightarrow> 0 | Some n \<Rightarrow> n)) \<circ> ?key) (?top st2)"
      using arg_cong[OF k, of "map (\<lambda>p. fst p @ '':'' @ show_nat (case snd p of None \<Rightarrow> 0 | Some n \<Rightarrow> n))"]
      by (simp only: map_map)
    then have "map ?render (?top st1) = map ?render (?top st2)" by (simp add: comp_def)
    then have "fingerprint_parts 0 st1 = fingerprint_parts 0 st2"
      by (simp add: fingerprint_parts_take)
    then show ?thesis using n by (simp add: calculateFingerprint_def)
  qed
  show ?thesis using len chars same by blast
qed

text \<open>
  Claim C5 at two errors of type \<^verbatim>\<open>TypeError\<close> with different messages whose first
  frame that is not native is \<^verbatim>\<open>foo\<close> at line 42, in different files and columns.
\<close>

theorem fingerprint_deterministic_hex_witness:
  "calculateFingerprint
     \<lparr>error_name = ''TypeError'', error_message = ''x is null'', error_stack = None\<rparr>
     [\<lparr>methodName = ''foo'', fileName = Some ''a.ts'', filePath = Some ''/app/a.ts'',
        lineNumber = Some 42, columnNumber = Some 7, isNative = False\<rparr>]
   = calculateFingerprint
     \<lparr>error_name = ''TypeError'', error_message = ''y is undefined'', error_stack = Some ''other''\<rparr>
     [\<lparr>methodName = ''push'', fileName = None, filePath = None,
        lineNumber = None, columnNumber = None, isNative = True\<rparr>,
      \<lparr>methodName = ''foo'', fileName = Some ''b.ts'', filePath = Some ''/srv/b.ts'',
        lineNumber = Some 42, columnNumber = Some 1, isNative = False\<rparr>]"
  using fingerprint_deterministic_hex[of
     "\<lparr>error_name = ''TypeError'', error_message = ''x is null'', error_stack = None\<rparr>"
     "[]"
     "\<lparr>error_name = ''TypeError'', error_message = ''x is null'', error_stack = None\<rparr>"
     "\<lparr>error_name = ''TypeError'', error_message = ''y is undefined'', error_stack = Some ''other''\<rparr>"
     "[\<lparr>methodName = ''foo'', fileName = Some ''a.ts'', filePath = Some ''/app/a.ts'',
        lineNumber = Some 42, columnNumber = Some 7, isNative = False\<rparr>]"
     "[\<lparr>methodName = ''push'', fileName = None, filePath = None,
        lineNumber = None, columnNumber = None, isNative = True\<rparr>,
      \<lparr>methodName = ''foo'', fileName = Some ''b.ts'', filePath = Some ''/srv/b.ts'',
        lineNumber = Some 42, columnNumber = Some 1, isNative = False\<rparr>]"]
  by simp

section \<open>Properties of the capture pipeline\<close>

lemma map_of_spread: "map_of (spread target source) = map_of target ++ map_of (rev source)"
  unfolding spread_def
proof (induction source arbitrary: target)
  case Nil
  then show ?case by simp
next
  case (Cons kv source)
  obtain k v where kv: "kv = (k, v)" by (cases kv)
  have "map_of (fold (\<lambda>(k, v) acc. AList.update k v acc) source (AList.update k v target))
        = map_of (AList.update k v target) ++ map_of (rev source)"
    by (rule Cons.IH)
  also have "\<dots> = map_of target ++ map_of (rev source @ [(k, v)])"
    by (rule ext) (auto simp: update_conv' map_add_def split: option.splits)
  finally show ?case by (simp add: kv)
qed

lemma map_of_rev_distinct: "distinct (map fst xs) \<Longrightarrow> map_of (rev xs) = map_of xs"
  by (rule map_of_inject_set[THEN iffD2]) (simp_all add: distinct_rev rev_map[symmetric])

lemma distinct_spread: "distinct (map fst target) \<Longrightarrow> distinct (map fst (spread target source))"
  unfolding spread_def
  by (induction source arbitrary: target) (auto simp: distinct_update)

text \<open>
  Claim C6.  The context of a report, read as a mapping, is the custom context,
  overridden by the context of the call site, overridden by the entry \<^verbatim>\<open>user\<close> that
  holds the current user.  Without a call-site context it is the custom context with
  the \<^verbatim>\<open>user\<close> entry.  The keys of an object are distinct.
\<close>

theorem context_merge_precedence:
  "(distinct (map fst (customContext cfg)) \<and> distinct (map fst c) \<longrightarrow>
      map_of (payload_context (createCapture cfg error (Some c) u t)) =
        map_of (customContext cfg) ++ map_of c ++ [''user'' \<mapsto> UserObj (user cfg)])
   \<and> (distinct (map fst (customContext cfg)) \<longrightarrow>
      map_of (payload_context (createCapture cfg error None u t)) =
        map_of (customContext cfg) ++ [''user'' \<mapsto> UserObj (user cfg)])"
proof -
  let ?X = "getCustomContext cfg"
  have dX: "distinct (map fst ?X)"
    unfolding getCustomContext_def by (rule distinct_spread) simp
  have X: "map_of ?X = map_of (customContext cfg)" if "distinct (map fst (customContext cfg))"
    using that by (simp add: getCustomContext_def map_of_spread map_of_rev_distinct)
  have copy: "map_of (spread [] ?X) = map_of ?X"
    using dX by (simp add: map_of_spread map_of_rev_distinct)
  have ctx: "map_of (payload_context (createCapture cfg error cx u t)) =
        (map_of ?X ++ map_of (rev (case cx of None \<Rightarrow> [] | Some c \<Rightarrow> c)))
          (''user'' \<mapsto> UserObj (user cfg))" for cx
    by (simp add: createCapture_def Let_def update_conv' map_of_spread getUser_def
        map_of_rev_distinct[OF dX])
  show ?thesis
    using ctx[of "Some c"] ctx[of None] X
    by (auto simp: map_of_rev_distinct)
qed

text \<open>
  Claim C6 at a custom context with the keys \<^verbatim>\<open>version\<close>, \<^verbatim>\<open>origin\<close> and
  \<^verbatim>\<open>user\<close> and a call-site context with the key \<^verbatim>\<open>origin\<close>.
\<close>

theorem context_merge_precedence_witness:
  "map_of (payload_context
      (createCapture (default_config\<lparr>customContext := [(''version'', Val (JString ''1.2.3'')),
                                                       (''origin'', Val (JString ''ambient'')),
                                                       (''user'', Val (JString ''shadowed''))]\<rparr>)
         \<lparr>error_name = ''TypeError'', error_message = ''x is null'', error_stack = None\<rparr>
         (Some [(''origin'', Val (JString ''error''))]) ''id-1'' ''2026-01-01T00:00:00.000Z''))
   = [''version'' \<mapsto> Val (JString ''1.2.3''), ''origin'' \<mapsto> Val (JString ''error''),
      ''user'' \<mapsto> UserObj \<lparr>user_id = None, email = None, username = None\<rparr>]"
  using context_merge_precedence[of
      "default_config\<lparr>customContext := [(''version'', Val (JString ''1.2.3'')),
                                         (''origin'', Val (JString ''ambient'')),
                                         (''user'', Val (JString ''shadowed''))]\<rparr>"
      "[(''origin'', Val (JString ''error''))]"
      "\<lparr>error_name = ''TypeError'', error_message = ''x is null'', error_stack = None\<rparr>"
      "''id-1''" "''2026-01-01T00:00:00.000Z''"]
  by (auto simp: default_config_def)

lemma dispatch_single:
  "listeners a = [OnError, OnUnhandledRejection] \<Longrightarrow>
   dispatchEvent cfg stringify ev error en a =
     handleException cfg stringify error (Some [(''origin'', Val (JString (origin_tag ev)))]) en a"
  by (cases ev) (simp_all add: dispatchEvent_def handleException_def)

text \<open>
  Claim C10.  \<^const>\<open>uninstall\<close> changes the flag \<^verbatim>\<open>installed\<close> and nothing else:
  the listeners stay registered.  After install and uninstall, and also after
  install and shutdown, an \<^verbatim>\<open>error\<close> or \<^verbatim>\<open>unhandledrejection\<close> event that passes
  the sampling still builds a report and hands it to \<^const>\<open>send\<close>; after shutdown
  the report is queued in the disconnected transport.
\<close>

theorem uninstall_keeps_listeners:
  "uninstall a = a\<lparr>installed := False\<rparr>
   \<and> listeners (uninstall a) = listeners a
   \<and> connection (uninstall a) = connection a
   \<and> listeners (uninstall (install (new_agent url_ok))) = [OnError, OnUnhandledRejection]
   \<and> listeners (shutdown (install (new_agent url_ok))) = [OnError, OnUnhandledRejection]
   \<and> (shouldSample cfg (random en) \<longrightarrow>
        connection (dispatchEvent cfg stringify ev error en (uninstall (install (new_agent url_ok)))) =
          send (stringify (createCapture cfg error
                             (Some [(''origin'', Val (JString (origin_tag ev)))]) (uuid en) (now en)))
               (new_BackendConnection url_ok)
        \<and> messageQueue (connection
             (dispatchEvent cfg stringify ev error en (shutdown (install (new_agent url_ok))))) =
          [stringify (createCapture cfg error
                        (Some [(''origin'', Val (JString (origin_tag ev)))]) (uuid en) (now en))])"
proof -
  have a: "uninstall a = a\<lparr>installed := False\<rparr>"
    by (cases "installed a") (simp_all add: uninstall_def)
  have l1: "listeners (uninstall (install (new_agent url_ok))) = [OnError, OnUnhandledRejection]"
    by (simp add: uninstall_def install_def new_agent_def)
  have l2: "listeners (shutdown (install (new_agent url_ok))) = [OnError, OnUnhandledRejection]"
    by (simp add: shutdown_def uninstall_def install_def new_agent_def)
  have c1: "connection (uninstall (install (new_agent url_ok))) = new_BackendConnection url_ok"
    by (simp add: uninstall_def install_def new_agent_def)
  have c2: "connection (shutdown (install (new_agent url_ok))) = disconnect (new_BackendConnection url_ok)"
    by (simp add: shutdown_def uninstall_def install_def new_agent_def)
  have q: "messageQueue (send m (disconnect (new_BackendConnection url_ok))) = [m]" for m
    by (simp add: send_def disconnect_def new_BackendConnection_def ws_open_def Let_def)
  show ?thesis
    using a l1 l2
    by (simp add: dispatch_single[OF l1] dispatch_single[OF l2] handleException_def
        sendException_def c1 c2 q)
qed

text \<open>
  Claim C10 at an \<^verbatim>\<open>error\<close> event delivered after shutdown, with the default
  sampling rate.
\<close>

theorem uninstall_keeps_listeners_witness:
  "messageQueue (connection
     (dispatchEvent default_config (\<lambda>p. ''report:'' @ payload_message p) OnError
        \<lparr>error_name = ''TypeError'', error_message = ''x is null'', error_stack = None\<rparr>
        \<lparr>random = 0, uuid = ''id-1'', now = ''2026-01-01T00:00:00.000Z''\<rparr>
        (shutdown (install (new_agent True))))) = [''report:x is null'']"
  using uninstall_keeps_listeners[where a = "new_agent True" and url_ok = True
      and cfg = default_config and stringify = "\<lambda>p. ''report:'' @ payload_message p"
      and ev = OnError
      and error = "\<lparr>error_name = ''TypeError'', error_message = ''x is null'', error_stack = None\<rparr>"
      and en = "\<lparr>random = 0, uuid = ''id-1'', now = ''2026-01-01T00:00:00.000Z''\<rparr>"]
  by (simp add: default_config_def shouldSample_def createCapture_def Let_def)


end
